(* ===== verification/Prelude.thy ===== *)
theory Prelude
  imports Main "HOL-Library.Word" "HOL-Library.State_Monad"
begin

section \<open>Shared vocabulary of the development\<close>

text \<open>
  The types, abbreviations and generic lemmas every component uses: Go's machine integers
  (\<open>int\<close> and \<open>int64\<close> are 64-bit two's complement words on the platforms the queue is built
  for), byte strings, Go's error results, decimal conversion as \<open>strconv\<close> does it, and the
  collections of simplification rules the component theories fill.

  Stateful code is written in the library's state monad (\<open>('w, 'a) state\<close>, with do-notation);
  \<open>'w\<close> is the state of everything outside the process that the code can touch (Redis, the
  metrics registry, the clock). A Go function returning \<open>(T, error)\<close> returns a value of
  \<open>error + T\<close>, one returning only \<open>error\<close> returns \<open>error option\<close>, where \<open>None\<close> is \<open>nil\<close>.
\<close>

type_synonym error = string
type_synonym int64 = "64 word"
type_synonym duration = "64 word"

named_theorems run_simps \<open>equations for running the effectful operations\<close>
named_theorems trace_simps \<open>equations for the calls an operation leaves in a trace\<close>

subsection \<open>Durations of package time\<close>

definition millisecond :: int where "millisecond = 1000000"
definition second :: int where "second = 1000000000"
definition minute :: int where "minute = 60 * 1000000000"
definition hour :: int where "hour = 3600 * 1000000000"

subsection \<open>Bytes\<close>

abbreviation byte :: "char \<Rightarrow> nat" where "byte c \<equiv> of_char c"
abbreviation dquote :: char where "dquote \<equiv> CHR 0x22"
abbreviation backslash :: char where "backslash \<equiv> CHR 0x5C"

definition is_digit :: "char \<Rightarrow> bool" where
  "is_digit c \<longleftrightarrow> 48 \<le> byte c \<and> byte c \<le> 57"

definition digit_char :: "nat \<Rightarrow> char" where
  "digit_char n = char_of (48 + n)"

definition digit_val :: "char \<Rightarrow> nat" where
  "digit_val c = byte c - 48"

lemma byte_digit_char [simp]: "n < 10 \<Longrightarrow> byte (digit_char n) = 48 + n"
  by (simp add: digit_char_def)

lemma is_digit_digit_char [simp]: "n < 10 \<Longrightarrow> is_digit (digit_char n)"
  by (simp add: is_digit_def)

lemma digit_val_digit_char [simp]: "n < 10 \<Longrightarrow> digit_val (digit_char n) = n"
  by (simp add: digit_val_def)

lemma byte_inject: "byte c = byte d \<longleftrightarrow> c = d"
  by (metis char_of_char)

lemma digit_zero: "digit_char 0 = CHR ''0''"
  using byte_inject [of "digit_char 0" "CHR ''0''"] by simp

subsection \<open>Decimal numbers\<close>

fun show_nat :: "nat \<Rightarrow> string" where
  "show_nat n = (if n < 10 then [digit_char n] else show_nat (n div 10) @ [digit_char (n mod 10)])"

declare show_nat.simps [simp del]

definition read_nat :: "string \<Rightarrow> nat" where
  "read_nat s = foldl (\<lambda>a c. 10 * a + digit_val c) 0 s"

definition show_int :: "int \<Rightarrow> string" where
  "show_int i = (if i < 0 then CHR ''-'' # show_nat (nat (- i)) else show_nat (nat i))"

lemma show_nat_digits: "list_all is_digit (show_nat n)"
proof (induction n rule: show_nat.induct)
  case (1 n)
  then show ?case by (cases "n < 10") (simp_all add: show_nat.simps [of n])
qed

lemma show_nat_not_Nil [simp]: "show_nat n \<noteq> []"
  by (simp add: show_nat.simps [of n])

lemma read_show_nat [simp]: "read_nat (show_nat n) = n"
proof (induction n rule: show_nat.induct)
  case (1 n)
  then show ?case by (cases "n < 10") (simp_all add: show_nat.simps [of n] read_nat_def)
qed

lemma hd_show_nat: "hd (show_nat n) = digit_char 0 \<longleftrightarrow> n = 0"
proof (induction n rule: show_nat.induct)
  case (1 n)
  show ?case
  proof (cases "n < 10")
    case True
    have "digit_char n = digit_char 0 \<longleftrightarrow> n = 0"
      using True byte_digit_char [of n] byte_digit_char [of 0] by (metis add_cancel_right_right zero_less_numeral)
    then show ?thesis using True by (simp add: show_nat.simps [of n])
  next
    case False
    then show ?thesis using 1 by (simp add: show_nat.simps [of n] div_eq_0_iff)
  qed
qed

lemma show_nat_small: "n < 10 \<Longrightarrow> show_nat n = [digit_char n]"
  by (simp add: show_nat.simps)

text \<open>A nonzero number does not start with the digit 0, as \<open>strconv.AppendInt\<close> guarantees.\<close>

lemma show_nat_Cons:
  obtains c cs where "show_nat n = c # cs" and "is_digit c" and "list_all is_digit cs"
    and "c = CHR ''0'' \<longleftrightarrow> n = 0" and "n = 0 \<longrightarrow> cs = []"
proof -
  obtain c cs where c: "show_nat n = c # cs" by (cases "show_nat n") auto
  have "list_all is_digit (c # cs)" using show_nat_digits [of n] c by simp
  moreover have "c = CHR ''0'' \<longleftrightarrow> n = 0"
    using hd_show_nat [of n] c by (simp add: digit_zero)
  moreover have "n = 0 \<longrightarrow> cs = []" using c by (auto simp: show_nat.simps [of n])
  ultimately show ?thesis using that c by simp
qed

subsection \<open>strings.Split, strings.TrimSpace, strings.HasPrefix, strings.TrimPrefix\<close>

text \<open>
  \<open>split_on c s\<close> is \<open>strings.Split(s, string(c))\<close> for a one-byte separator: it never returns
  an empty slice.
\<close>

fun split_on :: "char \<Rightarrow> string \<Rightarrow> string list" where
  "split_on c [] = [[]]"
| "split_on c (x # xs) =
     (if x = c then [] # split_on c xs
      else (case split_on c xs of [] \<Rightarrow> [[x]] | p # ps \<Rightarrow> (x # p) # ps))"

definition has_prefix :: "string \<Rightarrow> string \<Rightarrow> bool" where
  "has_prefix s p \<longleftrightarrow> take (length p) s = p"

definition trim_prefix :: "string \<Rightarrow> string \<Rightarrow> string" where
  "trim_prefix s p = (if has_prefix s p then drop (length p) s else s)"

lemma split_on_not_Nil [simp]: "split_on c s \<noteq> []"
  by (induction s) (auto split: list.splits)

lemma has_prefix_iff: "has_prefix s p \<longleftrightarrow> (\<exists>r. s = p @ r)"
  by (metis has_prefix_def append_eq_conv_conj append_take_drop_id)

lemma has_prefix_append [simp]: "has_prefix (p @ r) p"
  by (simp add: has_prefix_def)

lemma trim_prefix_append [simp]: "trim_prefix (p @ r) p = r"
  by (simp add: trim_prefix_def)

subsection \<open>Signed 64-bit integers\<close>

definition sless64 :: "int64 \<Rightarrow> int64 \<Rightarrow> bool" where
  "sless64 a b \<longleftrightarrow> sint a < sint b"

lemma sint64_range: "- (2 ^ 63) \<le> sint (w :: int64)" "sint (w :: int64) < 2 ^ 63"
  using sint_range_size [of w] by (simp_all add: word_size)

lemma sint64_of_int:
  assumes "- (2 ^ 63) \<le> i" and "i < 2 ^ 63"
  shows "sint (word_of_int i :: int64) = i"
  using assms by (simp add: signed_take_bit_int_eq_self sint_sbintrunc')

text \<open>The increment of a counter below another one never wraps.\<close>

lemma sint64_incr:
  assumes "sless64 a b"
  shows "sint (a + 1) = sint a + 1"
proof -
  have "sint a + 1 < 2 ^ 63" using assms sint64_range(2) [of b] by (simp add: sless64_def)
  then have "sint (word_of_int (sint a + 1) :: int64) = sint a + 1"
    using sint64_range(1) [of a] by (intro sint64_of_int) simp_all
  then show ?thesis by simp
qed

subsection \<open>Running monadic code\<close>

lemma run_state_if [simp]:
  "run_state (if b then m else n) s = (if b then run_state m s else run_state n s)"
  by simp

end
