(* ===== verification/Go_Json.thy ===== *)
theory Go_Json
  imports Prelude
begin

section \<open>What the queue uses of encoding/json\<close>

text \<open>
  \<open>Task.Marshal\<close>, \<open>task.Unmarshal\<close> and \<open>Publisher.Publish\<close> go through Go's standard
  \<open>encoding/json\<close>. This theory models the parts they use, on bytes:
  \<^item> the scanner of \<open>json.Valid\<close> as the byte-level state machine the library has (a state and a
    stack of open containers), with its nesting limit;
  \<^item> \<open>json.Compact\<close> with HTML escaping, which the encoder applies to a \<open>RawMessage\<close>;
  \<^item> quoting and unquoting of strings, with UTF-8 validation and surrogate pairs;
  \<^item> the splitting of an object into its raw members, which the struct decoder walks.
\<close>

subsection \<open>UTF-8\<close>

definition in_bytes :: "nat \<Rightarrow> nat \<Rightarrow> char \<Rightarrow> bool" where
  "in_bytes lo hi c \<longleftrightarrow> lo \<le> byte c \<and> byte c \<le> hi"

text \<open>\<open>utf8.DecodeRune\<close>'s size of the first rune, 0 where it reports an invalid encoding.\<close>

definition rune_size :: "string \<Rightarrow> nat" where
  "rune_size s = (case s of [] \<Rightarrow> 0 | a # s1 \<Rightarrow>
     (let x = byte a in
      if x < 0x80 then 1
      else if 0xC2 \<le> x \<and> x \<le> 0xDF then
        (case s1 of b # _ \<Rightarrow> if in_bytes 0x80 0xBF b then 2 else 0 | _ \<Rightarrow> 0)
      else if 0xE0 \<le> x \<and> x \<le> 0xEF then
        (case s1 of b # c # _ \<Rightarrow>
           if in_bytes (if x = 0xE0 then 0xA0 else 0x80) (if x = 0xED then 0x9F else 0xBF) b
              \<and> in_bytes 0x80 0xBF c then 3 else 0 | _ \<Rightarrow> 0)
      else if 0xF0 \<le> x \<and> x \<le> 0xF4 then
        (case s1 of b # c # d # _ \<Rightarrow>
           if in_bytes (if x = 0xF0 then 0x90 else 0x80) (if x = 0xF4 then 0x8F else 0xBF) b
              \<and> in_bytes 0x80 0xBF c \<and> in_bytes 0x80 0xBF d then 4 else 0 | _ \<Rightarrow> 0)
      else 0))"

function valid_utf8 :: "string \<Rightarrow> bool" where
  "valid_utf8 [] = True"
| "valid_utf8 (c # s) = (rune_size (c # s) \<noteq> 0 \<and> valid_utf8 (drop (rune_size (c # s) - 1) s))"
  by pat_completeness auto
termination
  by (relation "measure length") auto

text \<open>\<open>utf8.AppendRune\<close> for a code point (the callers never pass a surrogate).\<close>

definition encode_rune :: "nat \<Rightarrow> string" where
  "encode_rune r =
     (if r < 0x80 then [char_of r]
      else if r < 0x800 then [char_of (0xC0 + r div 64), char_of (0x80 + r mod 64)]
      else if r < 0x10000 then
        [char_of (0xE0 + r div 4096), char_of (0x80 + r div 64 mod 64), char_of (0x80 + r mod 64)]
      else
        [char_of (0xF0 + r div 262144), char_of (0x80 + r div 4096 mod 64),
         char_of (0x80 + r div 64 mod 64), char_of (0x80 + r mod 64)])"

definition replacement :: string where
  "replacement = [CHR 0xEF, CHR 0xBF, CHR 0xBD]"

subsection \<open>Quoting a string\<close>

definition hex_digit :: "nat \<Rightarrow> char" where
  "hex_digit n = (if n < 10 then char_of (48 + n) else char_of (87 + n))"

text \<open>One ASCII byte, with the HTML characters escaped (\<open>escapeHTML\<close> is on in \<open>json.Marshal\<close>).\<close>

definition escape_ascii :: "char \<Rightarrow> string" where
  "escape_ascii c =
     (if c = dquote \<or> c = backslash then [backslash, c]
      else if byte c = 8 then [backslash, CHR ''b'']
      else if byte c = 12 then [backslash, CHR ''f'']
      else if byte c = 10 then [backslash, CHR ''n'']
      else if byte c = 13 then [backslash, CHR ''r'']
      else if byte c = 9 then [backslash, CHR ''t'']
      else if byte c < 32 \<or> c = CHR ''<'' \<or> c = CHR ''>'' \<or> c = CHR ''&'' then
        [backslash, CHR ''u'', CHR ''0'', CHR ''0'', hex_digit (byte c div 16), hex_digit (byte c mod 16)]
      else [c])"

definition line_separator :: "string \<Rightarrow> bool" where
  "line_separator s \<longleftrightarrow> take 2 s = [CHR 0xE2, CHR 0x80] \<and>
     (case drop 2 s of c # _ \<Rightarrow> c = CHR 0xA8 \<or> c = CHR 0xA9 | _ \<Rightarrow> False)"

definition escape_separator :: "string \<Rightarrow> string" where
  "escape_separator s = [backslash, CHR ''u'', CHR ''2'', CHR ''0'', CHR ''2'', hex_digit (byte (s ! 2) mod 16)]"

function quote_body :: "string \<Rightarrow> string" where
  "quote_body [] = []"
| "quote_body (c # s) =
     (if byte c < 0x80 then escape_ascii c @ quote_body s
      else if rune_size (c # s) = 0 then
        [backslash, CHR ''u'', CHR ''f'', CHR ''f'', CHR ''f'', CHR ''d''] @ quote_body s
      else if line_separator (c # s) then
        escape_separator (c # s) @ quote_body (drop 2 s)
      else take (rune_size (c # s)) (c # s) @ quote_body (drop (rune_size (c # s) - 1) s))"
  by pat_completeness auto
termination
  by (relation "measure length") auto

definition quote :: "string \<Rightarrow> string" where
  "quote s = dquote # quote_body s @ [dquote]"

subsection \<open>Unquoting a string\<close>

definition hex_val :: "char \<Rightarrow> nat option" where
  "hex_val c =
     (if in_bytes 48 57 c then Some (byte c - 48)
      else if in_bytes 97 102 c then Some (byte c - 87)
      else if in_bytes 65 70 c then Some (byte c - 55)
      else None)"

text \<open>\<open>getu4\<close>: the code unit of a \<open>\uXXXX\<close> escape at the front, if there is one.\<close>

definition getu4 :: "string \<Rightarrow> nat option" where
  "getu4 s = (case s of b # u # h1 # h2 # h3 # h4 # _ \<Rightarrow>
     if b = backslash \<and> u = CHR ''u'' then
       (case (hex_val h1, hex_val h2, hex_val h3, hex_val h4) of
          (Some x1, Some x2, Some x3, Some x4) \<Rightarrow> Some (((x1 * 16 + x2) * 16 + x3) * 16 + x4)
        | _ \<Rightarrow> None)
     else None
   | _ \<Rightarrow> None)"

definition is_surrogate :: "nat \<Rightarrow> bool" where
  "is_surrogate r \<longleftrightarrow> 0xD800 \<le> r \<and> r < 0xE000"

text \<open>\<open>utf16.DecodeRune\<close> of a pair, \<open>None\<close> where it gives the replacement character.\<close>

definition decode_pair :: "nat \<Rightarrow> nat option \<Rightarrow> nat option" where
  "decode_pair r1 r2 = (case r2 of
     Some y \<Rightarrow> if 0xD800 \<le> r1 \<and> r1 < 0xDC00 \<and> 0xDC00 \<le> y \<and> y < 0xE000
                then Some ((r1 - 0xD800) * 1024 + (y - 0xDC00) + 0x10000) else None
   | None \<Rightarrow> None)"

definition simple_escape :: "char \<Rightarrow> char option" where
  "simple_escape c =
     (if c = dquote \<or> c = backslash \<or> c = CHR ''/'' \<or> c = CHR 0x27 then Some c
      else if c = CHR ''b'' then Some (char_of (8::nat))
      else if c = CHR ''f'' then Some (char_of (12::nat))
      else if c = CHR ''n'' then Some (char_of (10::nat))
      else if c = CHR ''r'' then Some (char_of (13::nat))
      else if c = CHR ''t'' then Some (char_of (9::nat))
      else None)"

function unquote_body :: "string \<Rightarrow> string option" where
  "unquote_body [] = Some []"
| "unquote_body (c # s) =
     (if c = backslash then
        (case s of
           [] \<Rightarrow> None
         | e # s' \<Rightarrow>
             if e = CHR ''u'' then
               (case getu4 (c # s) of
                  None \<Rightarrow> None
                | Some r \<Rightarrow>
                    if is_surrogate r then
                      (case decode_pair r (getu4 (drop 5 s)) of
                         Some d \<Rightarrow> map_option (\<lambda>t. encode_rune d @ t) (unquote_body (drop 11 s))
                       | None \<Rightarrow> map_option (\<lambda>t. replacement @ t) (unquote_body (drop 5 s)))
                    else map_option (\<lambda>t. encode_rune r @ t) (unquote_body (drop 5 s)))
             else (case simple_escape e of
                     Some d \<Rightarrow> map_option (\<lambda>t. d # t) (unquote_body (drop 1 s))
                   | None \<Rightarrow> None))
      else if c = dquote \<or> byte c < 32 then None
      else if byte c < 0x80 then map_option (\<lambda>t. c # t) (unquote_body s)
      else if rune_size (c # s) = 0 then map_option (\<lambda>t. replacement @ t) (unquote_body s)
      else map_option (\<lambda>t. take (rune_size (c # s)) (c # s) @ t)
             (unquote_body (drop (rune_size (c # s) - 1) s)))"
  by pat_completeness auto
termination
  by (relation "measure length") auto

declare valid_utf8.simps [simp del] quote_body.simps [simp del] unquote_body.simps [simp del]

text \<open>A string literal with its quotes.\<close>

definition unquote :: "string \<Rightarrow> string option" where
  "unquote s =
     (if 2 \<le> length s \<and> hd s = dquote \<and> last s = dquote then unquote_body (butlast (tl s)) else None)"

subsection \<open>The scanner\<close>

text \<open>
  \<open>jctx\<close> is the parse state of an open container; \<open>jst\<close> the step function of the scanner.
  \<open>Lit cs\<close> is the middle of \<open>true\<close>, \<open>false\<close> or \<open>null\<close> with the bytes \<open>cs\<close> to come,
  \<open>InEscU n\<close> a \<open>\u\<close> escape with \<open>n\<close> digits to come. The library's end-of-top-level state is
  \<open>EndValue\<close> with no open container.
\<close>

datatype jctx = ObjKey | ObjVal | ArrVal

datatype jst = BeginValue | BeginValueOrEmpty | BeginStringOrEmpty | BeginString | EndValue
  | InString | InEsc | InEscU nat | Neg | Num1 | Num0 | Dot | Dot0 | ExpE | ExpSign | Exp0
  | Lit string

definition is_space :: "char \<Rightarrow> bool" where
  "is_space c \<longleftrightarrow> c = CHR '' '' \<or> byte c = 9 \<or> byte c = 10 \<or> byte c = 13"

definition max_nesting_depth :: nat where "max_nesting_depth = 10000"

type_synonym jconf = "jst \<times> jctx list"

definition push :: "jst \<Rightarrow> jctx \<Rightarrow> jctx list \<Rightarrow> jconf option" where
  "push st x stk = (if Suc (length stk) \<le> max_nesting_depth then Some (st, x # stk) else None)"

fun end_value :: "jctx list \<Rightarrow> char \<Rightarrow> jconf option" where
  "end_value [] c = (if is_space c then Some (EndValue, []) else None)"
| "end_value (x # xs) c =
     (if is_space c then Some (EndValue, x # xs)
      else (case x of
        ObjKey \<Rightarrow> if c = CHR '':'' then Some (BeginValue, ObjVal # xs) else None
      | ObjVal \<Rightarrow> if c = CHR '','' then Some (BeginString, ObjKey # xs)
                  else if c = CHR ''}'' then Some (EndValue, xs) else None
      | ArrVal \<Rightarrow> if c = CHR '','' then Some (BeginValue, ArrVal # xs)
                  else if c = CHR '']'' then Some (EndValue, xs) else None))"

definition begin_value :: "jctx list \<Rightarrow> char \<Rightarrow> jconf option" where
  "begin_value stk c =
     (if is_space c then Some (BeginValue, stk)
      else if c = CHR ''{'' then push BeginStringOrEmpty ObjKey stk
      else if c = CHR ''['' then push BeginValueOrEmpty ArrVal stk
      else if c = dquote then Some (InString, stk)
      else if c = CHR ''-'' then Some (Neg, stk)
      else if c = CHR ''0'' then Some (Num0, stk)
      else if c = CHR ''t'' then Some (Lit ''rue'', stk)
      else if c = CHR ''f'' then Some (Lit ''alse'', stk)
      else if c = CHR ''n'' then Some (Lit ''ull'', stk)
      else if is_digit c then Some (Num1, stk)
      else None)"

definition begin_string :: "jctx list \<Rightarrow> char \<Rightarrow> jconf option" where
  "begin_string stk c =
     (if is_space c then Some (BeginString, stk)
      else if c = dquote then Some (InString, stk) else None)"

definition after_int :: "jctx list \<Rightarrow> char \<Rightarrow> jconf option" where
  "after_int stk c =
     (if c = CHR ''.'' then Some (Dot, stk)
      else if c = CHR ''e'' \<or> c = CHR ''E'' then Some (ExpE, stk)
      else end_value stk c)"

fun jnext :: "jst \<Rightarrow> jctx list \<Rightarrow> char \<Rightarrow> jconf option" where
  "jnext BeginValue stk c = begin_value stk c"
| "jnext BeginValueOrEmpty stk c =
     (if is_space c then Some (BeginValueOrEmpty, stk)
      else if c = CHR '']'' then end_value stk c else begin_value stk c)"
| "jnext BeginStringOrEmpty stk c =
     (if is_space c then Some (BeginStringOrEmpty, stk)
      else if c = CHR ''}'' then end_value (ObjVal # tl stk) c else begin_string stk c)"
| "jnext BeginString stk c = begin_string stk c"
| "jnext EndValue stk c = end_value stk c"
| "jnext InString stk c =
     (if c = dquote then Some (EndValue, stk) else if c = backslash then Some (InEsc, stk)
      else if byte c < 32 then None else Some (InString, stk))"
| "jnext InEsc stk c =
     (if c \<in> {CHR ''b'', CHR ''f'', CHR ''n'', CHR ''r'', CHR ''t'', backslash, CHR ''/'', dquote}
      then Some (InString, stk)
      else if c = CHR ''u'' then Some (InEscU 4, stk) else None)"
| "jnext (InEscU n) stk c =
     (if hex_val c = None then None
      else if n \<le> 1 then Some (InString, stk) else Some (InEscU (n - 1), stk))"
| "jnext Neg stk c =
     (if c = CHR ''0'' then Some (Num0, stk) else if is_digit c then Some (Num1, stk) else None)"
| "jnext Num1 stk c = (if is_digit c then Some (Num1, stk) else after_int stk c)"
| "jnext Num0 stk c = after_int stk c"
| "jnext Dot stk c = (if is_digit c then Some (Dot0, stk) else None)"
| "jnext Dot0 stk c =
     (if is_digit c then Some (Dot0, stk)
      else if c = CHR ''e'' \<or> c = CHR ''E'' then Some (ExpE, stk) else end_value stk c)"
| "jnext ExpE stk c =
     (if c = CHR ''+'' \<or> c = CHR ''-'' then Some (ExpSign, stk)
      else if is_digit c then Some (Exp0, stk) else None)"
| "jnext ExpSign stk c = (if is_digit c then Some (Exp0, stk) else None)"
| "jnext Exp0 stk c = (if is_digit c then Some (Exp0, stk) else end_value stk c)"
| "jnext (Lit cs) stk c =
     (case cs of [] \<Rightarrow> None
      | d # ds \<Rightarrow> if c = d then Some (if ds = [] then EndValue else Lit ds, stk) else None)"

fun jrun :: "jconf \<Rightarrow> string \<Rightarrow> jconf option" where
  "jrun p [] = Some p"
| "jrun p (c # cs) = (case jnext (fst p) (snd p) c of None \<Rightarrow> None | Some q \<Rightarrow> jrun q cs)"

text \<open>\<open>scanner.eof\<close>: one virtual space must complete the top-level value.\<close>

definition jaccept :: "jconf \<Rightarrow> bool" where
  "jaccept p \<longleftrightarrow> jnext (fst p) (snd p) (CHR '' '') = Some (EndValue, [])"

definition json_valid :: "string \<Rightarrow> bool" where
  "json_valid s = (case jrun (BeginValue, []) s of None \<Rightarrow> False | Some p \<Rightarrow> jaccept p)"

subsection \<open>Compaction\<close>

text \<open>
  \<open>appendCompact\<close> with \<open>escape\<close> on: white space between tokens goes, \<open><\<close>, \<open>>\<close>, \<open>&\<close> and
  U+2028/U+2029 become \<open>\u\<close> escapes. The escapes are decided on the bytes alone, the white
  space by the scanner's state.
\<close>

definition in_token :: "jst \<Rightarrow> bool" where
  "in_token st \<longleftrightarrow> st = InString"

fun compact_from :: "jconf \<Rightarrow> string \<Rightarrow> string option" where
  "compact_from p [] = (if jaccept p then Some [] else None)"
| "compact_from p (c # cs) =
     (case jnext (fst p) (snd p) c of
        None \<Rightarrow> None
      | Some q \<Rightarrow>
          (if c = CHR ''<'' \<or> c = CHR ''>'' \<or> c = CHR ''&'' then
             map_option (\<lambda>t. escape_ascii c @ t) (compact_from q cs)
           else if line_separator (c # cs) then
             (case jrun q (take 2 cs) of
                None \<Rightarrow> None
              | Some q2 \<Rightarrow> map_option (\<lambda>t. escape_separator (c # cs) @ t) (compact_from q2 (drop 2 cs)))
           else if is_space c \<and> \<not> in_token (fst p) then compact_from q cs
           else map_option (\<lambda>t. c # t) (compact_from q cs)))"

definition compact :: "string \<Rightarrow> string option" where
  "compact s = compact_from (BeginValue, []) s"

subsection \<open>The members of an object\<close>

fun skip_ws :: "string \<Rightarrow> string" where
  "skip_ws [] = []"
| "skip_ws (c # cs) = (if is_space c then skip_ws cs else c # cs)"

text \<open>
  \<open>scan_value\<close> cuts the value at the front of the input off, as \<open>d.data[start:d.readIndex()]\<close>
  does: at the byte that ends it.
\<close>

definition value_done :: "jst \<Rightarrow> jctx list \<Rightarrow> char \<Rightarrow> bool" where
  "value_done st stk c \<longleftrightarrow> stk = [] \<and>
     (case st of
        EndValue \<Rightarrow> True
      | Num1 \<Rightarrow> \<not> (is_digit c \<or> c \<in> {CHR ''.'', CHR ''e'', CHR ''E''})
      | Num0 \<Rightarrow> c \<notin> {CHR ''.'', CHR ''e'', CHR ''E''}
      | Dot0 \<Rightarrow> \<not> (is_digit c \<or> c \<in> {CHR ''e'', CHR ''E''})
      | Exp0 \<Rightarrow> \<not> is_digit c
      | _ \<Rightarrow> False)"

fun scan_value :: "jconf \<Rightarrow> string \<Rightarrow> string \<times> string" where
  "scan_value p [] = ([], [])"
| "scan_value p (c # cs) =
     (if value_done (fst p) (snd p) c then ([], c # cs)
      else (case jnext (fst p) (snd p) c of
              None \<Rightarrow> ([], c # cs)
            | Some q \<Rightarrow> (case scan_value q cs of (v, r) \<Rightarrow> (c # v, r))))"

lemma length_skip_ws: "length (skip_ws s) \<le> length s"
  by (induction s) auto

lemma length_scan_value: "length (snd (scan_value p s)) \<le> length s"
  by (induction p s rule: scan_value.induct) (auto split: option.splits prod.splits)

text \<open>The raw texts of the members, for the input after the opening brace or a comma.\<close>

function members :: "string \<Rightarrow> (string \<times> string) list option" where
  "members s =
     (let s1 = skip_ws s in
      if s1 \<noteq> [] \<and> hd s1 = CHR ''}'' then Some []
      else
        (let (k, r) = scan_value (BeginValue, []) s1; r1 = skip_ws r in
         if r1 = [] \<or> hd r1 \<noteq> CHR '':'' then None
         else
           (let (v, r3) = scan_value (BeginValue, []) (skip_ws (tl r1)); r4 = skip_ws r3 in
            if r4 = [] then None
            else if hd r4 = CHR ''}'' then Some [(k, v)]
            else if hd r4 = CHR '','' then map_option (\<lambda>ms. (k, v) # ms) (members (tl r4))
            else None)))"
  by pat_completeness auto
termination
proof (relation "measure length", goal_cases)
  case (2 s s1 kr k r r1 vr v r3 r4)
  have "length r \<le> length s1" using 2(3,4) length_scan_value by (metis snd_conv)
  moreover have "length r3 \<le> length (skip_ws (tl r1))" using 2(7,8) length_scan_value by (metis snd_conv)
  moreover have "length (tl r1) < length r1" "length (tl r4) < length r4" using 2(6,10) by auto
  ultimately show ?case
    using 2(1,5,9) length_skip_ws [of s] length_skip_ws [of r] length_skip_ws [of "tl r1"] length_skip_ws [of r3]
    by simp
qed simp

declare members.simps [simp del]

text \<open>A whole document: \<open>None\<close> is a syntax error.\<close>

datatype document = DNull | DObject "(string \<times> string) list" | DOther

definition parse_document :: "string \<Rightarrow> document option" where
  "parse_document s =
     (if \<not> json_valid s then None
      else (case skip_ws s of
              [] \<Rightarrow> None
            | c # cs \<Rightarrow>
                if c = CHR ''n'' then Some DNull
                else if c = CHR ''{'' then map_option DObject (members cs)
                else Some DOther))"

end
