(* ===== verification/Go_Time.thy ===== *)
theory Go_Time
  imports Prelude
begin

section \<open>Timestamps: time.Time in JSON\<close>

text \<open>
  The queue only carries \<open>CreatedAt\<close> through JSON, so a \<open>time.Time\<close> is modelled by what its
  JSON form shows: the civil date and time and the zone offset in seconds (the zero \<open>Time\<close> is
  January 1, year 1, UTC). \<open>marshal_time\<close> is \<open>Time.MarshalJSON\<close> (RFC 3339 with nanoseconds,
  an error for a year outside 0..9999 or an offset of 24 hours or more), \<open>unmarshal_time\<close> is
  \<open>Time.UnmarshalJSON\<close> by the library's RFC 3339 parser. The library tries the general layout
  parser after that one fails; the spellings only it accepts (a one-digit hour, a comma before
  the fraction, an offset of 24 hours or 60 minutes), which no \<open>Marshal\<close> writes, are errors here.
\<close>

record gotime =
  year :: int
  month :: nat
  day :: nat
  hours :: nat
  minutes :: nat
  seconds :: nat
  nanos :: nat
  offset :: int

definition zero_time :: gotime where
  "zero_time = \<lparr>year = 1, month = 1, day = 1, hours = 0, minutes = 0, seconds = 0, nanos = 0, offset = 0\<rparr>"

definition leap_year :: "int \<Rightarrow> bool" where
  "leap_year y \<longleftrightarrow> y mod 4 = 0 \<and> (y mod 100 \<noteq> 0 \<or> y mod 400 = 0)"

definition days_in :: "nat \<Rightarrow> int \<Rightarrow> nat" where
  "days_in m y =
     (if m = 2 then if leap_year y then 29 else 28
      else if m \<in> {4, 6, 9, 11} then 30 else 31)"

text \<open>A time the type can hold: every field in its range.\<close>

definition valid_time :: "gotime \<Rightarrow> bool" where
  "valid_time t \<longleftrightarrow>
     1 \<le> month t \<and> month t \<le> 12 \<and> 1 \<le> day t \<and> day t \<le> days_in (month t) (year t) \<and>
     hours t < 24 \<and> minutes t < 60 \<and> seconds t < 60 \<and> nanos t < 1000000000"

subsection \<open>Formatting\<close>

text \<open>\<open>appendInt(b, n, w)\<close>: decimal, padded with zeros to width \<open>w\<close>.\<close>

fun pad_nat :: "nat \<Rightarrow> nat \<Rightarrow> string" where
  "pad_nat 0 n = []"
| "pad_nat (Suc w) n = pad_nat w (n div 10) @ [digit_char (n mod 10)]"

definition trim_zeros :: "string \<Rightarrow> string" where
  "trim_zeros s = rev (dropWhile (\<lambda>c. c = CHR ''0'') (rev s))"

definition show_fraction :: "nat \<Rightarrow> string" where
  "show_fraction n = (if n = 0 then [] else CHR ''.'' # trim_zeros (pad_nat 9 n))"

definition show_zone :: "int \<Rightarrow> string" where
  "show_zone z =
     (if z = 0 then ''Z''
      else (let m = nat \<bar>z\<bar> div 60 in
        (if z < 0 \<and> m \<noteq> 0 then CHR ''-'' else CHR ''+'') # pad_nat 2 (m div 60) @ '':'' @ pad_nat 2 (m mod 60)))"

definition show_time :: "gotime \<Rightarrow> string" where
  "show_time t =
     pad_nat 4 (nat (year t)) @ ''-'' @ pad_nat 2 (month t) @ ''-'' @ pad_nat 2 (day t) @ ''T'' @
     pad_nat 2 (hours t) @ '':'' @ pad_nat 2 (minutes t) @ '':'' @ pad_nat 2 (seconds t) @
     show_fraction (nanos t) @ show_zone (offset t)"

definition marshal_time :: "gotime \<Rightarrow> string option" where
  "marshal_time t =
     (if 0 \<le> year t \<and> year t \<le> 9999 \<and> nat \<bar>offset t\<bar> div 3600 < 24
      then Some (dquote # show_time t @ [dquote]) else None)"

subsection \<open>Parsing\<close>

text \<open>\<open>parseUint\<close>: all bytes digits, the value within bounds.\<close>

definition parse_uint :: "string \<Rightarrow> nat \<Rightarrow> nat \<Rightarrow> nat option" where
  "parse_uint s lo hi =
     (if list_all is_digit s \<and> lo \<le> read_nat s \<and> read_nat s \<le> hi then Some (read_nat s) else None)"

text \<open>The digits after the decimal point, at most nine of them counting.\<close>

definition parse_nanos :: "string \<Rightarrow> nat" where
  "parse_nanos ds = (let d = take 9 ds in read_nat (d @ replicate (9 - length d) (CHR ''0'')))"

definition parse_zone :: "string \<Rightarrow> int option" where
  "parse_zone s =
     (if s = ''Z'' then Some 0
      else if length s = 6 \<and> (hd s = CHR ''-'' \<or> hd s = CHR ''+'') \<and> s ! 3 = CHR '':'' then
        (case (parse_uint (take 2 (drop 1 s)) 0 23, parse_uint (drop 4 s) 0 59) of
           (Some h, Some m) \<Rightarrow>
             Some ((if hd s = CHR ''-'' then -1 else 1) * int ((h * 60 + m) * 60))
         | _ \<Rightarrow> None)
      else None)"

text \<open>A decimal point begins a fraction only with a digit after it.\<close>

definition has_fraction :: "string \<Rightarrow> bool" where
  "has_fraction r = (case r of c # d # _ \<Rightarrow> c = CHR ''.'' \<and> is_digit d | _ \<Rightarrow> False)"

definition parse_rfc3339 :: "string \<Rightarrow> gotime option" where
  "parse_rfc3339 s =
     (if length s < 19 then None else
      (case (parse_uint (take 4 s) 0 9999, parse_uint (take 2 (drop 5 s)) 1 12) of
         (Some y, Some mo) \<Rightarrow>
           (case (parse_uint (take 2 (drop 8 s)) 1 (days_in mo (int y)),
                  parse_uint (take 2 (drop 11 s)) 0 23,
                  parse_uint (take 2 (drop 14 s)) 0 59,
                  parse_uint (take 2 (drop 17 s)) 0 59) of
              (Some d, Some h, Some mi, Some sec) \<Rightarrow>
                if s ! 4 = CHR ''-'' \<and> s ! 7 = CHR ''-'' \<and> s ! 10 = CHR ''T'' \<and>
                   s ! 13 = CHR '':'' \<and> s ! 16 = CHR '':'' then
                  (let r = drop 19 s;
                       frac = (if has_fraction r then takeWhile is_digit (tl r) else []);
                       r' = (if has_fraction r then dropWhile is_digit (tl r) else r)
                   in case parse_zone r' of
                        None \<Rightarrow> None
                      | Some z \<Rightarrow> Some \<lparr>year = int y, month = mo, day = d, hours = h, minutes = mi,
                                    seconds = sec, nanos = parse_nanos frac, offset = z\<rparr>)
                else None
            | _ \<Rightarrow> None)
       | _ \<Rightarrow> None))"

text \<open>
  \<open>UnmarshalJSON\<close> on the raw bytes of the value; \<open>old\<close> is the time the field holds, which a
  JSON \<open>null\<close> leaves alone.
\<close>

definition unmarshal_time :: "gotime \<Rightarrow> string \<Rightarrow> gotime option" where
  "unmarshal_time old s =
     (if s = ''null'' then Some old
      else if 2 \<le> length s \<and> hd s = dquote \<and> last s = dquote then parse_rfc3339 (butlast (tl s))
      else None)"

subsection \<open>Round trip\<close>

lemma length_pad_nat [simp]: "length (pad_nat w n) = w"
  by (induction w arbitrary: n) auto

lemma digits_pad_nat [simp]: "list_all is_digit (pad_nat w n)"
  by (induction w arbitrary: n) auto

lemma read_nat_snoc: "read_nat (s @ [c]) = 10 * read_nat s + digit_val c"
  by (simp add: read_nat_def)

lemma read_pad_nat: "n < 10 ^ w \<Longrightarrow> read_nat (pad_nat w n) = n"
proof (induction w arbitrary: n)
  case 0
  then show ?case by (simp add: read_nat_def)
next
  case (Suc w)
  then have "n div 10 < 10 ^ w" by (simp add: div_less_iff_less_mult)
  with Suc.IH show ?case by (simp add: read_nat_snoc)
qed

lemma parse_uint_pad: "n < 10 ^ w \<Longrightarrow> lo \<le> n \<Longrightarrow> n \<le> hi \<Longrightarrow> parse_uint (pad_nat w n) lo hi = Some n"
  by (simp add: parse_uint_def read_pad_nat)

lemma trim_zeros_split:
  "\<exists>k. s = trim_zeros s @ replicate k (CHR ''0'')"
proof -
  define z where "z = rev (takeWhile (\<lambda>c. c = CHR ''0'') (rev s))"
  have "s = trim_zeros s @ z"
    unfolding trim_zeros_def z_def by (metis rev_append rev_rev_ident takeWhile_dropWhile_id)
  moreover have "replicate (length z) (CHR ''0'') = z"
    unfolding z_def by (rule replicate_length_same) (auto dest: set_takeWhileD)
  ultimately show ?thesis by metis
qed

lemma parse_nanos_trim:
  assumes "n < 10 ^ 9"
  shows "parse_nanos (trim_zeros (pad_nat 9 n)) = n"
proof -
  define d where "d = trim_zeros (pad_nat 9 n)"
  obtain k where k: "pad_nat 9 n = d @ replicate k (CHR ''0'')"
    unfolding d_def using trim_zeros_split by blast
  then have len: "9 = length d + k"
    by (metis length_append length_pad_nat length_replicate)
  have "read_nat (d @ replicate k (CHR ''0'')) = n"
    using k read_pad_nat [OF assms] by metis
  moreover from len have "9 - length d = k" "take 9 d = d" by simp_all
  ultimately have "parse_nanos d = n" by (simp add: parse_nanos_def)
  then show ?thesis by (simp only: d_def)
qed

lemma parse_nanos_Nil: "parse_nanos [] = 0"
  by (simp add: parse_nanos_def read_nat_def digit_val_def numeral_eq_Suc)

lemma digits_trim_zeros: "list_all is_digit s \<Longrightarrow> list_all is_digit (trim_zeros s)"
  by (metis list_all_append trim_zeros_split)

lemma parse_zone_show:
  assumes "nat \<bar>z\<bar> div 3600 < 24" and "z mod 60 = 0"
  shows "parse_zone (show_zone z) = Some z"
proof (cases "z = 0")
  case True
  then show ?thesis by (simp add: parse_zone_def show_zone_def)
next
  case False
  define m where "m = nat \<bar>z\<bar> div 60"
  have "60 dvd \<bar>z\<bar>" using assms(2) by auto
  then have "int (nat \<bar>z\<bar> div 60) * 60 = \<bar>z\<bar>" by (simp add: zdiv_int)
  moreover have "nat \<bar>z\<bar> div 60 div 60 = nat \<bar>z\<bar> div 3600" by (simp add: div_mult2_eq [symmetric])
  ultimately have m: "int m * 60 = \<bar>z\<bar>" "m div 60 < 24"
    using assms(1) by (simp_all add: m_def)
  then have m0: "m \<noteq> 0" using False by auto
  define h where "h = m div 60"
  define mi where "mi = m mod 60"
  have hm: "h < 24" "mi < 60" "h * 60 + mi = m" using m(2) by (simp_all add: h_def mi_def)
  have "parse_uint (pad_nat 2 h) 0 23 = Some h" "parse_uint (pad_nat 2 mi) 0 59 = Some mi"
    using hm by (simp_all add: parse_uint_pad)
  then have "parse_zone (c # pad_nat 2 h @ '':'' @ pad_nat 2 mi) =
      Some ((if c = CHR ''-'' then -1 else 1) * int (m * 60))" if "c = CHR ''-'' \<or> c = CHR ''+''" for c
    using that hm(3) by (auto simp: parse_zone_def nth_append)
  moreover have "show_zone z = (if z < 0 then CHR ''-'' else CHR ''+'') # pad_nat 2 h @ '':'' @ pad_nat 2 mi"
    using False m0 by (simp add: show_zone_def m_def [symmetric] h_def mi_def Let_def)
  ultimately show ?thesis using m(1) by auto
qed

text \<open>The times that survive a trip through JSON.\<close>

definition json_time :: "gotime \<Rightarrow> bool" where
  "json_time t \<longleftrightarrow> valid_time t \<and> 0 \<le> year t \<and> year t \<le> 9999 \<and>
     nat \<bar>offset t\<bar> div 3600 < 24 \<and> offset t mod 60 = 0"

lemma show_zone_head: "show_zone z \<noteq> [] \<and> hd (show_zone z) \<noteq> CHR ''.'' \<and> \<not> is_digit (hd (show_zone z))"
  by (auto simp: show_zone_def Let_def is_digit_def)

lemma fraction_split:
  assumes "n < 10 ^ 9" and r_def: "r = show_fraction n @ show_zone z"
  shows "parse_nanos (if has_fraction r then takeWhile is_digit (tl r) else []) = n"
    and "(if has_fraction r then dropWhile is_digit (tl r) else r) = show_zone z"
proof -
  have r: "has_fraction r \<longleftrightarrow> n \<noteq> 0"
  proof (cases "n = 0")
    case True
    then show ?thesis
      using show_zone_head [of z] by (cases "show_zone z") (auto simp: r_def show_fraction_def has_fraction_def split: list.split)
  next
    case False
    have "trim_zeros (pad_nat 9 n) \<noteq> []"
      using parse_nanos_trim [OF assms(1)] False by (auto simp: parse_nanos_Nil)
    then obtain d ds where "trim_zeros (pad_nat 9 n) = d # ds" by (cases "trim_zeros (pad_nat 9 n)") auto
    moreover have "list_all is_digit (trim_zeros (pad_nat 9 n))" by (simp add: digits_trim_zeros)
    ultimately show ?thesis using False by (simp add: r_def show_fraction_def has_fraction_def)
  qed
  have tw: "takeWhile is_digit (d @ show_zone z) = d" "dropWhile is_digit (d @ show_zone z) = show_zone z"
    if "list_all is_digit d" for d
    using that show_zone_head [of z]
    by (cases "show_zone z"; simp add: list_all_iff takeWhile_append dropWhile_append)+
  have d: "list_all is_digit (trim_zeros (pad_nat 9 n))" by (simp add: digits_trim_zeros)
  show "parse_nanos (if has_fraction r then takeWhile is_digit (tl r) else []) = n"
    using assms(1) tw(1) [OF d] unfolding r by (simp add: r_def show_fraction_def parse_nanos_trim parse_nanos_Nil)
  show "(if has_fraction r then dropWhile is_digit (tl r) else r) = show_zone z"
    using tw(2) [OF d] unfolding r by (simp add: r_def show_fraction_def)
qed

lemma parse_show_time:
  assumes "json_time t"
  shows "parse_rfc3339 (show_time t) = Some t"
proof -
  have v: "month t \<le> 12" "1 \<le> month t" "1 \<le> day t" "day t \<le> days_in (month t) (year t)"
    "hours t < 24" "minutes t < 60" "seconds t < 60" "nanos t < 10 ^ 9" "0 \<le> year t" "year t \<le> 9999"
    using assms by (simp_all add: json_time_def valid_time_def)
  have day: "day t < 10 ^ 2" using v(4) by (simp add: days_in_def split: if_splits)
  define r where "r = show_fraction (nanos t) @ show_zone (offset t)"
  define s where "s = show_time t"
  have s: "s = pad_nat 4 (nat (year t)) @ CHR ''-'' # pad_nat 2 (month t) @ CHR ''-'' # pad_nat 2 (day t) @
     CHR ''T'' # pad_nat 2 (hours t) @ CHR '':'' # pad_nat 2 (minutes t) @ CHR '':'' # pad_nat 2 (seconds t) @ r"
    by (simp add: s_def r_def show_time_def)
  have parts: "19 \<le> length s" "take 4 s = pad_nat 4 (nat (year t))" "take 2 (drop 5 s) = pad_nat 2 (month t)"
    "take 2 (drop 8 s) = pad_nat 2 (day t)" "take 2 (drop 11 s) = pad_nat 2 (hours t)"
    "take 2 (drop 14 s) = pad_nat 2 (minutes t)" "take 2 (drop 17 s) = pad_nat 2 (seconds t)" "drop 19 s = r"
    "s ! 4 = CHR ''-''" "s ! 7 = CHR ''-''" "s ! 10 = CHR ''T''" "s ! 13 = CHR '':''" "s ! 16 = CHR '':''"
    by (simp_all add: s nth_append)
  have "parse_uint (pad_nat 4 (nat (year t))) 0 9999 = Some (nat (year t))"
    "parse_uint (pad_nat 2 (month t)) 1 12 = Some (month t)"
    "parse_uint (pad_nat 2 (day t)) 1 (days_in (month t) (year t)) = Some (day t)"
    "parse_uint (pad_nat 2 (hours t)) 0 23 = Some (hours t)"
    "parse_uint (pad_nat 2 (minutes t)) 0 59 = Some (minutes t)"
    "parse_uint (pad_nat 2 (seconds t)) 0 59 = Some (seconds t)"
    using v day by (simp_all add: parse_uint_pad)
  moreover have "parse_zone (show_zone (offset t)) = Some (offset t)"
    using assms by (simp add: parse_zone_show json_time_def)
  ultimately show ?thesis
    using fraction_split [OF v(8) r_def] v parts
    unfolding s_def [symmetric]
    by (simp add: parse_rfc3339_def Let_def)
qed

lemma unmarshal_marshal_time:
  assumes "json_time t"
  shows "\<exists>s. marshal_time t = Some s \<and> unmarshal_time old s = Some t"
  using assms parse_show_time [OF assms]
  by (simp add: marshal_time_def unmarshal_time_def json_time_def)

end
