(* ===== verification/Task.thy ===== *)
theory Task
  imports Go_Json Go_Time
begin

section \<open>Tasks, events and their JSON form\<close>

text \<open>
  \<open>task/task.go\<close>: the \<open>Task\<close> and \<open>Event\<close> structs with their field tags, \<open>Task.Marshal\<close> and
  \<open>task.Unmarshal\<close>. \<open>Payload\<close> is a \<open>json.RawMessage\<close>: \<open>None\<close> is the nil slice. \<open>Timeout\<close> is a
  \<open>*time.Duration\<close>: \<open>None\<close> is the nil pointer. An error of \<open>Unmarshal\<close> carries no task, because
  no caller looks at the task that comes with a non-nil error.
\<close>

definition PriorityHigh :: string where "PriorityHigh = ''high''"
definition PriorityNormal :: string where "PriorityNormal = ''normal''"
definition PriorityLow :: string where "PriorityLow = ''low''"

record task =
  ID :: string
  Type :: string
  Payload :: "string option"
  CreatedAt :: gotime
  MaxRetries :: int64
  CurrentRetries :: int64
  Error :: string
  IdempotencyKey :: string
  Priority :: string
  Timeout :: "duration option"

definition zero_task :: task where
  "zero_task = \<lparr>ID = [], Type = [], Payload = None, CreatedAt = zero_time, MaxRetries = 0,
     CurrentRetries = 0, Error = [], IdempotencyKey = [], Priority = [], Timeout = None\<rparr>"

record event =
  EType :: string
  TaskID :: string
  WorkerID :: string

subsection \<open>Encoding\<close>

definition json_error :: error where
  "json_error = ''json: error''"

fun join_members :: "(string \<times> string) list \<Rightarrow> string" where
  "join_members [] = []"
| "join_members [(k, v)] = quote k @ '':'' @ v"
| "join_members ((k, v) # m # ms) = quote k @ '':'' @ v @ '','' @ join_members (m # ms)"

definition json_object :: "(string \<times> string) list \<Rightarrow> string" where
  "json_object ms = ''{'' @ join_members ms @ ''}''"

definition show_int64 :: "int64 \<Rightarrow> string" where
  "show_int64 w = show_int (sint w)"

definition omitempty :: "string \<Rightarrow> string \<Rightarrow> (string \<times> string) list" where
  "omitempty k s = (if s = [] then [] else [(k, quote s)])"

definition marshal_payload :: "string option \<Rightarrow> string option" where
  "marshal_payload p = (case p of None \<Rightarrow> Some ''null'' | Some b \<Rightarrow> compact b)"

text \<open>The members in the order of the struct, given the encoded payload and time.\<close>

definition task_members :: "task \<Rightarrow> string \<Rightarrow> string \<Rightarrow> (string \<times> string) list" where
  "task_members t payload created =
     [(''id'', quote (ID t)), (''type'', quote (Type t)), (''payload'', payload),
      (''created_at'', created), (''max_retries'', show_int64 (MaxRetries t)),
      (''current_retries'', show_int64 (CurrentRetries t))]
     @ omitempty ''error'' (Error t) @ omitempty ''idempotency_key'' (IdempotencyKey t)
     @ omitempty ''priority'' (Priority t)
     @ (case Timeout t of None \<Rightarrow> [] | Some d \<Rightarrow> [(''timeout'', show_int64 d)])"

definition marshal :: "task \<Rightarrow> error + string" where
  "marshal t = (case (marshal_payload (Payload t), marshal_time (CreatedAt t)) of
     (Some p, Some c) \<Rightarrow> Inr (json_object (task_members t p c))
   | _ \<Rightarrow> Inl json_error)"

definition marshal_event :: "event \<Rightarrow> string" where
  "marshal_event e = json_object [(''type'', quote (EType e)), (''task_id'', quote (TaskID e)),
     (''worker_id'', quote (WorkerID e))]"

subsection \<open>Decoding\<close>

text \<open>
  Struct fields are found by their exact name, else by \<open>foldName\<close>: ASCII letters in upper case,
  and the two non-ASCII runes that fold to an ASCII letter (U+017F to S, U+212A to K).
\<close>

definition upper :: "char \<Rightarrow> char" where
  "upper c = (if in_bytes 97 122 c then char_of (byte c - 32) else c)"

fun fold_name :: "string \<Rightarrow> string" where
  "fold_name [] = []"
| "fold_name (c # s) =
     (if c = CHR 0xC5 \<and> take 1 s = [CHR 0xBF] then CHR ''S'' # fold_name (drop 1 s)
      else if c = CHR 0xE2 \<and> take 2 s = [CHR 0x84, CHR 0xAA] then CHR ''K'' # fold_name (drop 2 s)
      else upper c # fold_name s)"

datatype task_field = FID | FType | FPayload | FCreatedAt | FMaxRetries | FCurrentRetries
  | FError | FIdempotencyKey | FPriority | FTimeout

definition task_fields :: "(string \<times> task_field) list" where
  "task_fields = [(''id'', FID), (''type'', FType), (''payload'', FPayload), (''created_at'', FCreatedAt),
     (''max_retries'', FMaxRetries), (''current_retries'', FCurrentRetries), (''error'', FError),
     (''idempotency_key'', FIdempotencyKey), (''priority'', FPriority), (''timeout'', FTimeout)]"

definition find_field :: "string \<Rightarrow> task_field option" where
  "find_field k = (case map_of task_fields k of
     Some f \<Rightarrow> Some f
   | None \<Rightarrow> map_of (map (\<lambda>(n, f). (fold_name n, f)) task_fields) (fold_name k))"

definition parse_int64 :: "string \<Rightarrow> int64 option" where
  "parse_int64 s =
     (let neg = (s \<noteq> [] \<and> hd s = CHR ''-''); ds = (if neg then tl s else s);
          v = (if neg then - int (read_nat ds) else int (read_nat ds)) in
      if ds \<noteq> [] \<and> list_all is_digit ds \<and> - (2 ^ 63) \<le> v \<and> v < 2 ^ 63
      then Some (word_of_int v) else None)"

definition decode_string :: "string \<Rightarrow> string \<Rightarrow> string option" where
  "decode_string old raw = (if raw = ''null'' then Some old else unquote raw)"

definition decode_int :: "int64 \<Rightarrow> string \<Rightarrow> int64 option" where
  "decode_int old raw = (if raw = ''null'' then Some old else parse_int64 raw)"

definition decode_field :: "task_field \<Rightarrow> string \<Rightarrow> task \<Rightarrow> task option" where
  "decode_field f raw t = (case f of
     FID \<Rightarrow> map_option (\<lambda>x. t\<lparr>ID := x\<rparr>) (decode_string (ID t) raw)
   | FType \<Rightarrow> map_option (\<lambda>x. t\<lparr>Type := x\<rparr>) (decode_string (Type t) raw)
   | FPayload \<Rightarrow> Some (t\<lparr>Payload := Some raw\<rparr>)
   | FCreatedAt \<Rightarrow> map_option (\<lambda>x. t\<lparr>CreatedAt := x\<rparr>) (unmarshal_time (CreatedAt t) raw)
   | FMaxRetries \<Rightarrow> map_option (\<lambda>x. t\<lparr>MaxRetries := x\<rparr>) (decode_int (MaxRetries t) raw)
   | FCurrentRetries \<Rightarrow> map_option (\<lambda>x. t\<lparr>CurrentRetries := x\<rparr>) (decode_int (CurrentRetries t) raw)
   | FError \<Rightarrow> map_option (\<lambda>x. t\<lparr>Error := x\<rparr>) (decode_string (Error t) raw)
   | FIdempotencyKey \<Rightarrow> map_option (\<lambda>x. t\<lparr>IdempotencyKey := x\<rparr>) (decode_string (IdempotencyKey t) raw)
   | FPriority \<Rightarrow> map_option (\<lambda>x. t\<lparr>Priority := x\<rparr>) (decode_string (Priority t) raw)
   | FTimeout \<Rightarrow> (if raw = ''null'' then Some (t\<lparr>Timeout := None\<rparr>)
                  else map_option (\<lambda>x. t\<lparr>Timeout := Some x\<rparr>) (parse_int64 raw)))"

text \<open>Unknown members are skipped, repeated ones overwrite, any type mismatch is an error.\<close>

fun decode_members :: "(string \<times> string) list \<Rightarrow> task \<Rightarrow> task option" where
  "decode_members [] t = Some t"
| "decode_members ((k, raw) # ms) t =
     (case unquote k of
        None \<Rightarrow> None
      | Some name \<Rightarrow>
          (case find_field name of
             None \<Rightarrow> decode_members ms t
           | Some f \<Rightarrow> (case decode_field f raw t of None \<Rightarrow> None | Some t' \<Rightarrow> decode_members ms t')))"

definition unmarshal :: "string \<Rightarrow> error + task" where
  "unmarshal s = (case parse_document s of
     None \<Rightarrow> Inl json_error
   | Some DNull \<Rightarrow> Inr zero_task
   | Some DOther \<Rightarrow> Inl json_error
   | Some (DObject ms) \<Rightarrow>
       (case decode_members ms zero_task of None \<Rightarrow> Inl json_error | Some t \<Rightarrow> Inr t))"

end
