(* ===== verification/Interfaces.thy ===== *)
theory Interfaces
  imports Task
begin

section \<open>The interfaces between the components\<close>

text \<open>
  \<open>task/store.go\<close>: the interfaces every component gets its collaborators through, as records of
  operations (a single-method interface is the type of its method) over the outside state \<open>'w\<close>.
  Contexts are kept because which context a call runs under decides whether a shutdown can
  cancel it. \<open>metrics/metrics.go\<close>: the metrics, whose registry (Prometheus) is a parameter.

  The second half gives every interface a spy: the same operations, with each call and its
  result appended to a trace. As a component only ever sees its collaborators through these
  interfaces, what it does with spied ones is what it does with any.
\<close>

datatype go_ctx = Background | MainCtx | RequestCtx | WithTimeout go_ctx duration

text \<open>The dynamic types of \<open>interface{}\<close> values that the code distinguishes.\<close>

datatype go_any = GoString string | GoBytes string | GoDuration duration | GoOther

record stream_message =
  MsgID :: string
  Values :: "string \<rightharpoonup> go_any"

text \<open>The type assertion \<open>msg.Values["payload"].(string)\<close>.\<close>

definition payload_string :: "stream_message \<Rightarrow> string option" where
  "payload_string msg = (case Values msg ''payload'' of Some (GoString s) \<Rightarrow> Some s | _ \<Rightarrow> None)"

record 'w stream_store =
  store_Add :: "go_ctx \<Rightarrow> string \<Rightarrow> task \<Rightarrow> ('w, error + string) state"
  store_ReadGroup :: "go_ctx \<Rightarrow> string \<Rightarrow> string \<Rightarrow> string \<Rightarrow> int64 \<Rightarrow> go_any \<Rightarrow>
    ('w, error + stream_message list) state"
  store_Ack :: "go_ctx \<Rightarrow> string \<Rightarrow> string \<Rightarrow> string \<Rightarrow> ('w, error option) state"
  store_CreateGroup :: "go_ctx \<Rightarrow> string \<Rightarrow> string \<Rightarrow> ('w, error option) state"
  store_Range :: "go_ctx \<Rightarrow> string \<Rightarrow> string \<Rightarrow> string \<Rightarrow> int64 \<Rightarrow>
    ('w, error + stream_message list) state"
  store_Delete :: "go_ctx \<Rightarrow> string \<Rightarrow> string list \<Rightarrow> ('w, error option) state"

type_synonym 'w event_publisher = "go_ctx \<Rightarrow> event \<Rightarrow> ('w, error option) state"

text \<open>
  A processor gets a pointer to the task, so it returns the task as it leaves it, and it may
  panic instead of returning.
\<close>

datatype proc_result = Returned "error option" | Panicked

type_synonym 'w task_processor = "go_ctx \<Rightarrow> task \<Rightarrow> ('w, task \<times> proc_result) state"

definition TaskProcessorFunc_Process :: "'w task_processor \<Rightarrow> 'w task_processor" where
  "TaskProcessorFunc_Process f ctx t = f ctx t"

type_synonym 'w idempotency_checker = "go_ctx \<Rightarrow> string \<Rightarrow> ('w, error + bool) state"

subsection \<open>Metrics\<close>

datatype metric = TasksProcessedTotal string string | TasksFailedTotal string
  | TasksDLQTotal string | TaskDurationSeconds string | WorkerPanicsTotal | ChannelDepth
  | TasksDuplicateTotal

text \<open>The registered name and the label values of a metric.\<close>

fun metric_name :: "metric \<Rightarrow> string" where
  "metric_name (TasksProcessedTotal _ _) = ''buraq_tasks_processed_total''"
| "metric_name (TasksFailedTotal _) = ''buraq_tasks_failed_total''"
| "metric_name (TasksDLQTotal _) = ''buraq_tasks_dlq_total''"
| "metric_name (TaskDurationSeconds _) = ''buraq_task_duration_seconds''"
| "metric_name WorkerPanicsTotal = ''buraq_worker_panics_total''"
| "metric_name ChannelDepth = ''buraq_channel_depth''"
| "metric_name TasksDuplicateTotal = ''buraq_tasks_duplicate_total''"

fun metric_labels :: "metric \<Rightarrow> (string \<times> string) list" where
  "metric_labels (TasksProcessedTotal ty st) = [(''task_type'', ty), (''status'', st)]"
| "metric_labels (TasksFailedTotal ty) = [(''task_type'', ty)]"
| "metric_labels (TasksDLQTotal ty) = [(''task_type'', ty)]"
| "metric_labels (TaskDurationSeconds ty) = [(''task_type'', ty)]"
| "metric_labels _ = []"

text \<open>
  What the code uses of the process: counters, the duration histogram (given the elapsed
  nanoseconds) and the clock.
\<close>

record 'w runtime =
  rt_inc :: "metric \<Rightarrow> ('w, unit) state"
  rt_observe :: "metric \<Rightarrow> int \<Rightarrow> ('w, unit) state"
  rt_now :: "('w, int) state"

subsection \<open>Spies\<close>

datatype call =
    CAdd go_ctx string task "error + string"
  | CReadGroup go_ctx string string string int64 go_any "error + stream_message list"
  | CAck go_ctx string string string "error option"
  | CCreateGroup go_ctx string string "error option"
  | CRange go_ctx string string string int64 "error + stream_message list"
  | CDelete go_ctx string "string list" "error option"
  | CPublish go_ctx event "error option"
  | CProcess go_ctx task "task \<times> proc_result"
  | CCheck go_ctx string "error + bool"
  | CInc metric
  | CObserve metric int

record 'w spied =
  calls :: "call list"
  world :: 'w

definition spy :: "('w, 'a) state \<Rightarrow> ('a \<Rightarrow> call) \<Rightarrow> ('w spied, 'a) state" where
  "spy m f = State (\<lambda>s. case run_state m (world s) of
     (r, w) \<Rightarrow> (r, \<lparr>calls = calls s @ [f r], world = w\<rparr>))"

definition unspied :: "('w, 'a) state \<Rightarrow> ('w spied, 'a) state" where
  "unspied m = State (\<lambda>s. case run_state m (world s) of (r, w) \<Rightarrow> (r, s\<lparr>world := w\<rparr>))"

definition spy_store :: "'w stream_store \<Rightarrow> 'w spied stream_store" where
  "spy_store s =
     \<lparr>store_Add = (\<lambda>ctx st t. spy (store_Add s ctx st t) (CAdd ctx st t)),
      store_ReadGroup = (\<lambda>ctx st g c n b. spy (store_ReadGroup s ctx st g c n b) (CReadGroup ctx st g c n b)),
      store_Ack = (\<lambda>ctx st g m. spy (store_Ack s ctx st g m) (CAck ctx st g m)),
      store_CreateGroup = (\<lambda>ctx st g. spy (store_CreateGroup s ctx st g) (CCreateGroup ctx st g)),
      store_Range = (\<lambda>ctx st a b n. spy (store_Range s ctx st a b n) (CRange ctx st a b n)),
      store_Delete = (\<lambda>ctx st ms. spy (store_Delete s ctx st ms) (CDelete ctx st ms))\<rparr>"

definition spy_publisher :: "'w event_publisher \<Rightarrow> 'w spied event_publisher" where
  "spy_publisher p ctx e = spy (p ctx e) (CPublish ctx e)"

definition spy_processor :: "'w task_processor \<Rightarrow> 'w spied task_processor" where
  "spy_processor p ctx t = spy (p ctx t) (CProcess ctx t)"

definition spy_checker :: "'w idempotency_checker \<Rightarrow> 'w spied idempotency_checker" where
  "spy_checker p ctx k = spy (p ctx k) (CCheck ctx k)"

definition spy_runtime :: "'w runtime \<Rightarrow> 'w spied runtime" where
  "spy_runtime rt =
     \<lparr>rt_inc = (\<lambda>m. spy (rt_inc rt m) (\<lambda>_. CInc m)),
      rt_observe = (\<lambda>m d. spy (rt_observe rt m d) (\<lambda>_. CObserve m d)),
      rt_now = unspied (rt_now rt)\<rparr>"

lemma run_spy: "run_state (spy m f) s =
    (fst (run_state m (world s)),
     \<lparr>calls = calls s @ [f (fst (run_state m (world s)))], world = snd (run_state m (world s))\<rparr>)"
  by (simp add: spy_def split: prod.splits)

lemma run_unspied: "run_state (unspied m) s =
    (fst (run_state m (world s)), s\<lparr>world := snd (run_state m (world s))\<rparr>)"
  by (simp add: unspied_def split: prod.splits)

lemma spy_simps [simp]:
  "store_Add (spy_store s) ctx st t = spy (store_Add s ctx st t) (CAdd ctx st t)"
  "store_ReadGroup (spy_store s) ctx st g c n b = spy (store_ReadGroup s ctx st g c n b) (CReadGroup ctx st g c n b)"
  "store_Ack (spy_store s) ctx st g m = spy (store_Ack s ctx st g m) (CAck ctx st g m)"
  "store_CreateGroup (spy_store s) ctx st g = spy (store_CreateGroup s ctx st g) (CCreateGroup ctx st g)"
  "store_Range (spy_store s) ctx st a z n = spy (store_Range s ctx st a z n) (CRange ctx st a z n)"
  "store_Delete (spy_store s) ctx st ms = spy (store_Delete s ctx st ms) (CDelete ctx st ms)"
  "spy_publisher p ctx e = spy (p ctx e) (CPublish ctx e)"
  "spy_processor pr ctx t = spy (pr ctx t) (CProcess ctx t)"
  "spy_checker ch ctx k = spy (ch ctx k) (CCheck ctx k)"
  "rt_inc (spy_runtime rt) mt = spy (rt_inc rt mt) (\<lambda>_. CInc mt)"
  "rt_observe (spy_runtime rt) mt d = spy (rt_observe rt mt d) (\<lambda>_. CObserve mt d)"
  "rt_now (spy_runtime rt) = unspied (rt_now rt)"
  by (simp_all add: spy_store_def spy_publisher_def spy_processor_def spy_checker_def spy_runtime_def)

text \<open>
  \<open>yields m Q\<close>: from any state, \<open>m\<close> appends some calls to the trace, and its result with
  those calls satisfies \<open>Q\<close>. The rules step backwards through an operation, call by call; at a
  spied call the result is arbitrary, so what is derived holds for every collaborator.
\<close>

definition yields :: "('w spied, 'a) state \<Rightarrow> ('a \<Rightarrow> call list \<Rightarrow> bool) \<Rightarrow> bool" where
  "yields m Q \<longleftrightarrow>
     (\<forall>s. \<exists>tr. calls (snd (run_state m s)) = calls s @ tr \<and> Q (fst (run_state m s)) tr)"

named_theorems yields_intros \<open>backward rules for the calls an operation makes\<close>

lemma yields_return [yields_intros]: "Q x [] \<Longrightarrow> yields (State_Monad.return x) Q"
  by (simp add: yields_def)

lemma yields_spy [yields_intros]: "(\<And>r. Q r [f r]) \<Longrightarrow> yields (spy m f) Q"
  by (simp add: yields_def run_spy)

lemma yields_unspied [yields_intros]: "(\<And>r. Q r []) \<Longrightarrow> yields (unspied m) Q"
  by (simp add: yields_def run_unspied)

lemma yields_bind [yields_intros]:
  assumes "yields m (\<lambda>a tr. yields (f a) (\<lambda>b tr'. Q b (tr @ tr')))"
  shows "yields (State_Monad.bind m f) Q"
  unfolding yields_def
proof
  fix s
  obtain a s1 where m: "run_state m s = (a, s1)" by fastforce
  then obtain tr where tr: "calls s1 = calls s @ tr" "yields (f a) (\<lambda>b tr'. Q b (tr @ tr'))"
    using assms [unfolded yields_def [of m], rule_format, of s] by auto
  obtain b s2 where f: "run_state (f a) s1 = (b, s2)" by fastforce
  then obtain tr' where "calls s2 = calls s1 @ tr'" "Q b (tr @ tr')"
    using tr(2) [unfolded yields_def, rule_format, of s1] by auto
  then show "\<exists>tr. calls (snd (run_state (State_Monad.bind m f) s)) = calls s @ tr \<and>
      Q (fst (run_state (State_Monad.bind m f) s)) tr"
    using m f tr(1) by auto
qed

lemma yields_mono: "yields m P \<Longrightarrow> (\<And>r tr. P r tr \<Longrightarrow> Q r tr) \<Longrightarrow> yields m Q"
  unfolding yields_def by (elim all_forward ex_forward) auto

lemma yieldsD:
  assumes "yields m Q" and "run_state m s = (r, s')"
  obtains tr where "calls s' = calls s @ tr" and "Q r tr"
  using assms(1) [unfolded yields_def, rule_format, of s] assms(2) that by auto

text \<open>Reading a trace: the kinds of calls, the contexts store calls run under, the events in order.\<close>

fun is_ack :: "call \<Rightarrow> bool" where
  "is_ack (CAck _ _ _ _ _) = True"
| "is_ack _ = False"

fun is_add :: "call \<Rightarrow> bool" where
  "is_add (CAdd _ _ _ _) = True"
| "is_add _ = False"

fun is_process :: "call \<Rightarrow> bool" where
  "is_process (CProcess _ _ _) = True"
| "is_process _ = False"

fun store_ctx :: "call \<Rightarrow> go_ctx option" where
  "store_ctx (CAdd ctx _ _ _) = Some ctx"
| "store_ctx (CReadGroup ctx _ _ _ _ _ _) = Some ctx"
| "store_ctx (CAck ctx _ _ _ _) = Some ctx"
| "store_ctx (CCreateGroup ctx _ _ _) = Some ctx"
| "store_ctx (CRange ctx _ _ _ _ _) = Some ctx"
| "store_ctx (CDelete ctx _ _ _) = Some ctx"
| "store_ctx _ = None"

fun events_of :: "call list \<Rightarrow> event list" where
  "events_of [] = []"
| "events_of (CPublish _ e _ # cs) = e # events_of cs"
| "events_of (_ # cs) = events_of cs"

fun increments_of :: "call list \<Rightarrow> metric list" where
  "increments_of [] = []"
| "increments_of (CInc m # cs) = m # increments_of cs"
| "increments_of (_ # cs) = increments_of cs"

lemma events_of_append [simp]: "events_of (xs @ ys) = events_of xs @ events_of ys"
  by (induction xs rule: events_of.induct) auto

lemma increments_of_append [simp]: "increments_of (xs @ ys) = increments_of xs @ increments_of ys"
  by (induction xs rule: increments_of.induct) auto

text \<open>
  \<open>mirrors m m'\<close>: \<open>m'\<close> is \<open>m\<close> over spied collaborators: same result, same outside state.
\<close>

definition mirrors :: "('w, 'a) state \<Rightarrow> ('w spied, 'a) state \<Rightarrow> bool" where
  "mirrors m m' \<longleftrightarrow> (\<forall>s. run_state m (world s) = map_prod id world (run_state m' s))"

named_theorems mirrors_intros \<open>an operation and its spied version agree\<close>

lemma mirrors_return [mirrors_intros]: "mirrors (State_Monad.return x) (State_Monad.return x)"
  by (simp add: mirrors_def)

lemma mirrors_spy [mirrors_intros]: "mirrors m (spy m f)"
  by (simp add: mirrors_def run_spy)

lemma mirrors_unspied [mirrors_intros]: "mirrors m (unspied m)"
  by (simp add: mirrors_def run_unspied)

lemma mirrors_bind [mirrors_intros]:
  assumes "mirrors m m'" and "\<And>a. mirrors (f a) (f' a)"
  shows "mirrors (State_Monad.bind m f) (State_Monad.bind m' f')"
  unfolding mirrors_def
proof
  fix s
  obtain a s1 where "run_state m' s = (a, s1)" by fastforce
  then show "run_state (State_Monad.bind m f) (world s) =
      map_prod id world (run_state (State_Monad.bind m' f') s)"
    using assms(1) [unfolded mirrors_def, rule_format, of s]
      assms(2) [of a, unfolded mirrors_def, rule_format, of s1] by simp
qed

end
