(* ===== verification/Redis_Adapter.thy ===== *)
theory Redis_Adapter
  imports Interfaces
begin

section \<open>The Redis adapters\<close>

text \<open>
  \<open>redisadapter/adapter.go\<close>, \<open>redisadapter/cluster.go\<close>, \<open>redisadapter/idempotency.go\<close> and
  \<open>event/publisher.go\<close>: the implementations of the interfaces on a Redis client. The client
  (\<open>github.com/redis/go-redis\<close>) is a parameter: a record of the commands the code sends. A
  command whose result the code only asks for its error (\<open>.Err()\<close>) returns an error option.
  \<open>*redis.Client\<close> and \<open>*redis.ClusterClient\<close> offer the same commands.
\<close>

record xmessage =
  XID :: string
  XValues :: "string \<rightharpoonup> go_any"

record xstream =
  XStream :: string
  XMessages :: "xmessage list"

record xreadgroup_args =
  XGroup :: string
  XConsumer :: string
  XStreams :: "string list"
  XCount :: int64
  XBlock :: duration

record 'w redis_client =
  XAdd :: "go_ctx \<Rightarrow> string \<Rightarrow> (string \<rightharpoonup> go_any) \<Rightarrow> ('w, error + string) state"
  XReadGroup :: "go_ctx \<Rightarrow> xreadgroup_args \<Rightarrow> ('w, error + xstream list) state"
  XAck :: "go_ctx \<Rightarrow> string \<Rightarrow> string \<Rightarrow> string \<Rightarrow> ('w, error option) state"
  XGroupCreateMkStream :: "go_ctx \<Rightarrow> string \<Rightarrow> string \<Rightarrow> string \<Rightarrow> ('w, error option) state"
  XRangeN :: "go_ctx \<Rightarrow> string \<Rightarrow> string \<Rightarrow> string \<Rightarrow> int64 \<Rightarrow> ('w, error + xmessage list) state"
  XDel :: "go_ctx \<Rightarrow> string \<Rightarrow> string list \<Rightarrow> ('w, error option) state"
  SetNX :: "go_ctx \<Rightarrow> string \<Rightarrow> string \<Rightarrow> duration \<Rightarrow> ('w, error + bool) state"
  RPublish :: "go_ctx \<Rightarrow> string \<Rightarrow> string \<Rightarrow> ('w, error option) state"
  RPing :: "go_ctx \<Rightarrow> ('w, error option) state"

definition busygroup :: error where
  "busygroup = ''BUSYGROUP Consumer Group name already exists''"

definition to_stream_message :: "xmessage \<Rightarrow> stream_message" where
  "to_stream_message m = \<lparr>MsgID = XID m, Values = XValues m\<rparr>"

subsection \<open>Store\<close>

definition Store_Add :: "'w redis_client \<Rightarrow> go_ctx \<Rightarrow> string \<Rightarrow> task \<Rightarrow> ('w, error + string) state" where
  "Store_Add client ctx stream t = (case marshal t of
     Inl e \<Rightarrow> State_Monad.return (Inl e)
   | Inr data \<Rightarrow> XAdd client ctx stream [''payload'' \<mapsto> GoBytes data])"

text \<open>
  The type assertion on \<open>block\<close> falls back to two seconds. The read asks for the new messages
  of the group only (the id \<open>>\<close>); the messages of all returned streams are concatenated.
\<close>

definition block_duration :: "go_any \<Rightarrow> duration" where
  "block_duration block = (case block of GoDuration d \<Rightarrow> d | _ \<Rightarrow> word_of_int (2 * second))"

fun collect_messages :: "xstream list \<Rightarrow> stream_message list" where
  "collect_messages [] = []"
| "collect_messages (st # sts) = map to_stream_message (XMessages st) @ collect_messages sts"

definition Store_ReadGroup :: "'w redis_client \<Rightarrow> go_ctx \<Rightarrow> string \<Rightarrow> string \<Rightarrow> string \<Rightarrow> int64 \<Rightarrow> go_any \<Rightarrow>
    ('w, error + stream_message list) state" where
  "Store_ReadGroup client ctx stream grp consumer count block = do {
     r \<leftarrow> XReadGroup client ctx \<lparr>XGroup = grp, XConsumer = consumer, XStreams = [stream, ''>''],
            XCount = count, XBlock = block_duration block\<rparr>;
     (case r of
        Inl err \<Rightarrow> State_Monad.return (Inl err)
      | Inr streams \<Rightarrow> State_Monad.return (Inr (collect_messages streams)))
   }"

definition Store_Ack :: "'w redis_client \<Rightarrow> go_ctx \<Rightarrow> string \<Rightarrow> string \<Rightarrow> string \<Rightarrow> ('w, error option) state" where
  "Store_Ack client ctx stream grp msgID = XAck client ctx stream grp msgID"

definition Store_CreateGroup :: "'w redis_client \<Rightarrow> go_ctx \<Rightarrow> string \<Rightarrow> string \<Rightarrow> ('w, error option) state" where
  "Store_CreateGroup client ctx stream grp = do {
     err \<leftarrow> XGroupCreateMkStream client ctx stream grp ''0'';
     State_Monad.return (if err \<noteq> None \<and> err \<noteq> Some busygroup then err else None)
   }"

definition Store_Range :: "'w redis_client \<Rightarrow> go_ctx \<Rightarrow> string \<Rightarrow> string \<Rightarrow> string \<Rightarrow> int64 \<Rightarrow>
    ('w, error + stream_message list) state" where
  "Store_Range client ctx stream start stop count = do {
     r \<leftarrow> XRangeN client ctx stream start stop count;
     (case r of
        Inl err \<Rightarrow> State_Monad.return (Inl err)
      | Inr messages \<Rightarrow> State_Monad.return (Inr (map to_stream_message messages)))
   }"

definition Store_Delete :: "'w redis_client \<Rightarrow> go_ctx \<Rightarrow> string \<Rightarrow> string list \<Rightarrow> ('w, error option) state" where
  "Store_Delete client ctx stream msgIDs = XDel client ctx stream msgIDs"

definition new_store :: "'w redis_client \<Rightarrow> 'w stream_store" where
  "new_store client = \<lparr>store_Add = Store_Add client, store_ReadGroup = Store_ReadGroup client,
     store_Ack = Store_Ack client, store_CreateGroup = Store_CreateGroup client,
     store_Range = Store_Range client, store_Delete = Store_Delete client\<rparr>"

subsection \<open>ClusterStore\<close>

definition ClusterStore_Add :: "'w redis_client \<Rightarrow> go_ctx \<Rightarrow> string \<Rightarrow> task \<Rightarrow> ('w, error + string) state" where
  "ClusterStore_Add client ctx stream t = (case marshal t of
     Inl e \<Rightarrow> State_Monad.return (Inl e)
   | Inr data \<Rightarrow> XAdd client ctx stream [''payload'' \<mapsto> GoBytes data])"

definition ClusterStore_ReadGroup :: "'w redis_client \<Rightarrow> go_ctx \<Rightarrow> string \<Rightarrow> string \<Rightarrow> string \<Rightarrow> int64 \<Rightarrow> go_any \<Rightarrow>
    ('w, error + stream_message list) state" where
  "ClusterStore_ReadGroup client ctx stream grp consumer count block = do {
     r \<leftarrow> XReadGroup client ctx \<lparr>XGroup = grp, XConsumer = consumer, XStreams = [stream, ''>''],
            XCount = count, XBlock = block_duration block\<rparr>;
     (case r of
        Inl err \<Rightarrow> State_Monad.return (Inl err)
      | Inr streams \<Rightarrow> State_Monad.return (Inr (collect_messages streams)))
   }"

definition ClusterStore_Ack :: "'w redis_client \<Rightarrow> go_ctx \<Rightarrow> string \<Rightarrow> string \<Rightarrow> string \<Rightarrow> ('w, error option) state" where
  "ClusterStore_Ack client ctx stream grp msgID = XAck client ctx stream grp msgID"

definition ClusterStore_CreateGroup :: "'w redis_client \<Rightarrow> go_ctx \<Rightarrow> string \<Rightarrow> string \<Rightarrow> ('w, error option) state" where
  "ClusterStore_CreateGroup client ctx stream grp = do {
     err \<leftarrow> XGroupCreateMkStream client ctx stream grp ''0'';
     State_Monad.return (if err \<noteq> None \<and> err \<noteq> Some busygroup then err else None)
   }"

definition ClusterStore_Range :: "'w redis_client \<Rightarrow> go_ctx \<Rightarrow> string \<Rightarrow> string \<Rightarrow> string \<Rightarrow> int64 \<Rightarrow>
    ('w, error + stream_message list) state" where
  "ClusterStore_Range client ctx stream start stop count = do {
     r \<leftarrow> XRangeN client ctx stream start stop count;
     (case r of
        Inl err \<Rightarrow> State_Monad.return (Inl err)
      | Inr messages \<Rightarrow> State_Monad.return (Inr (map to_stream_message messages)))
   }"

definition ClusterStore_Delete :: "'w redis_client \<Rightarrow> go_ctx \<Rightarrow> string \<Rightarrow> string list \<Rightarrow> ('w, error option) state" where
  "ClusterStore_Delete client ctx stream msgIDs = XDel client ctx stream msgIDs"

definition new_cluster_store :: "'w redis_client \<Rightarrow> 'w stream_store" where
  "new_cluster_store client = \<lparr>store_Add = ClusterStore_Add client,
     store_ReadGroup = ClusterStore_ReadGroup client, store_Ack = ClusterStore_Ack client,
     store_CreateGroup = ClusterStore_CreateGroup client, store_Range = ClusterStore_Range client,
     store_Delete = ClusterStore_Delete client\<rparr>"

lemmas store_defs = new_store_def Store_Add_def Store_ReadGroup_def Store_Ack_def
  Store_CreateGroup_def Store_Range_def Store_Delete_def
lemmas cluster_store_defs = new_cluster_store_def ClusterStore_Add_def ClusterStore_ReadGroup_def
  ClusterStore_Ack_def ClusterStore_CreateGroup_def ClusterStore_Range_def ClusterStore_Delete_def

text \<open>The operations of the two stores agree one by one: what is shown of one holds of the other.\<close>

lemma cluster_store_eq: "new_cluster_store client = new_store client"
  by (auto simp: store_defs cluster_store_defs fun_eq_iff intro!: arg_cong2 [where f = State_Monad.bind])

subsection \<open>IdempotencyStore and Publisher\<close>

record 'w idempotency_store =
  is_client :: "'w redis_client"
  is_ttl :: duration

definition new_idempotency_store :: "'w redis_client \<Rightarrow> duration \<Rightarrow> 'w idempotency_store" where
  "new_idempotency_store client ttl0 =
     (let ttl = (if ttl0 = 0 then word_of_int (24 * hour) else ttl0) in
      \<lparr>is_client = client, is_ttl = ttl\<rparr>)"

definition idempotency_Check :: "'w idempotency_store \<Rightarrow> 'w idempotency_checker" where
  "idempotency_Check st ctx key = do {
     r \<leftarrow> SetNX (is_client st) ctx (''idemp:'' @ key) ''1'' (is_ttl st);
     (case r of
        Inl err \<Rightarrow> State_Monad.return (Inl err)
      | Inr isNew \<Rightarrow> State_Monad.return (Inr isNew))
   }"

record 'w publisher =
  p_client :: "'w redis_client"
  p_channel :: string

definition new_publisher :: "'w redis_client \<Rightarrow> string \<Rightarrow> 'w publisher" where
  "new_publisher client channel = \<lparr>p_client = client, p_channel = channel\<rparr>"

text \<open>\<open>json.Marshal\<close> of an event, a struct of strings, always succeeds.\<close>

definition publisher_Publish :: "'w publisher \<Rightarrow> 'w event_publisher" where
  "publisher_Publish p ctx e = (case (Inr (marshal_event e) :: error + string) of
     Inl err \<Rightarrow> State_Monad.return (Some err)
   | Inr data \<Rightarrow> do {
       r \<leftarrow> RPublish (p_client p) ctx (p_channel p) data;
       (case r of Some err \<Rightarrow> State_Monad.return (Some err) | None \<Rightarrow> State_Monad.return None)
     })"

end
