(* ===== verification/Redis_Memory.thy ===== *)
theory Redis_Memory
  imports Redis_Adapter
begin

section \<open>A Redis server in memory\<close>

text \<open>
  A small instance of the Redis client, for the witnesses of the properties that rely on
  documented behaviour of Redis (\<open>SET NX\<close>, streams, consumer groups): it shows that the laws
  assumed of the client can hold together. It is no part of the model of the program. Message
  ids are \<open><n>-0\<close> with a counter per stream; expiry, blocking and clusters are left out.
\<close>

record mem_group =
  g_last :: nat
  g_pending :: "string list"

record mem_stream =
  s_next :: nat
  s_entries :: "(nat \<times> (string \<rightharpoonup> go_any)) list"
  s_groups :: "string \<rightharpoonup> mem_group"

record redis_state =
  r_streams :: "string \<rightharpoonup> mem_stream"
  r_keys :: "string set"
  r_published :: "(string \<times> string) list"

definition empty_stream :: mem_stream where
  "empty_stream = \<lparr>s_next = 1, s_entries = [], s_groups = Map.empty\<rparr>"

definition empty_redis :: redis_state where
  "empty_redis = \<lparr>r_streams = Map.empty, r_keys = {}, r_published = []\<rparr>"

definition stream_of :: "redis_state \<Rightarrow> string \<Rightarrow> mem_stream" where
  "stream_of w st = (case r_streams w st of None \<Rightarrow> empty_stream | Some s \<Rightarrow> s)"

definition set_stream :: "string \<Rightarrow> mem_stream \<Rightarrow> redis_state \<Rightarrow> redis_state" where
  "set_stream st s w = w\<lparr>r_streams := (r_streams w)(st \<mapsto> s)\<rparr>"

definition entry_id :: "nat \<Rightarrow> string" where
  "entry_id n = show_nat n @ ''-0''"

text \<open>The server stores bytes, and hands them out as strings.\<close>

definition stored_value :: "go_any \<Rightarrow> go_any" where
  "stored_value v = (case v of GoBytes s \<Rightarrow> GoString s | _ \<Rightarrow> v)"

definition to_xmessage :: "nat \<times> (string \<rightharpoonup> go_any) \<Rightarrow> xmessage" where
  "to_xmessage e = \<lparr>XID = entry_id (fst e), XValues = snd e\<rparr>"

definition mem_XAdd :: "string \<Rightarrow> (string \<rightharpoonup> go_any) \<Rightarrow> (redis_state, error + string) state" where
  "mem_XAdd st vals = State (\<lambda>w.
     let s = stream_of w st; n = s_next s in
     (Inr (entry_id n),
      set_stream st (s\<lparr>s_next := n + 1, s_entries := s_entries s @ [(n, map_option stored_value \<circ> vals)]\<rparr>) w))"

definition undelivered :: "mem_stream \<Rightarrow> mem_group \<Rightarrow> (nat \<times> (string \<rightharpoonup> go_any)) list" where
  "undelivered s g = filter (\<lambda>e. g_last g < fst e) (s_entries s)"

definition take_count :: "int64 \<Rightarrow> 'a list \<Rightarrow> 'a list" where
  "take_count n xs = (if sint n \<le> 0 then xs else take (nat (sint n)) xs)"

definition mem_XReadGroup :: "xreadgroup_args \<Rightarrow> (redis_state, error + xstream list) state" where
  "mem_XReadGroup a = State (\<lambda>w.
     let st = hd (XStreams a); s = stream_of w st in
     (case s_groups s (XGroup a) of
        None \<Rightarrow> (Inl ''NOGROUP'', w)
      | Some g \<Rightarrow>
          (let es = take_count (XCount a) (undelivered s g) in
           if es = [] then (Inl ''redis: nil'', w)
           else (Inr [\<lparr>XStream = st, XMessages = map to_xmessage es\<rparr>],
                 set_stream st (s\<lparr>s_groups := (s_groups s)(XGroup a \<mapsto>
                   \<lparr>g_last = fold max (map fst es) (g_last g), g_pending = g_pending g @ map (entry_id \<circ> fst) es\<rparr>)\<rparr>) w))))"

definition mem_XAck :: "string \<Rightarrow> string \<Rightarrow> string \<Rightarrow> (redis_state, error option) state" where
  "mem_XAck st grp m = State (\<lambda>w.
     let s = stream_of w st in
     (None, case s_groups s grp of None \<Rightarrow> w
       | Some g \<Rightarrow> set_stream st (s\<lparr>s_groups := (s_groups s)(grp \<mapsto>
           g\<lparr>g_pending := removeAll m (g_pending g)\<rparr>)\<rparr>) w))"

definition mem_XGroupCreate :: "string \<Rightarrow> string \<Rightarrow> (redis_state, error option) state" where
  "mem_XGroupCreate st grp = State (\<lambda>w.
     let s = stream_of w st in
     (case s_groups s grp of Some _ \<Rightarrow> (Some busygroup, w)
       | None \<Rightarrow> (None, set_stream st (s\<lparr>s_groups := (s_groups s)(grp \<mapsto>
           \<lparr>g_last = 0, g_pending = []\<rparr>)\<rparr>) w)))"

text \<open>
  \<open>XRANGE - +\<close> with a count: an absent stream is empty; of an existing one a count of zero gets
  nil, which the client reports as an error.
\<close>

definition mem_XRangeN :: "string \<Rightarrow> int64 \<Rightarrow> (redis_state, error + xmessage list) state" where
  "mem_XRangeN st n = State (\<lambda>w.
     (case r_streams w st of None \<Rightarrow> Inr []
      | Some s \<Rightarrow> (if n = 0 then Inl ''redis: nil'' else Inr (map to_xmessage (take_count n (s_entries s)))), w))"

definition mem_XDel :: "string \<Rightarrow> string list \<Rightarrow> (redis_state, error option) state" where
  "mem_XDel st ms = State (\<lambda>w.
     let s = stream_of w st in
     (None, set_stream st (s\<lparr>s_entries := filter (\<lambda>e. entry_id (fst e) \<notin> set ms) (s_entries s)\<rparr>) w))"

definition mem_SetNX :: "string \<Rightarrow> (redis_state, error + bool) state" where
  "mem_SetNX k = State (\<lambda>w. (Inr (k \<notin> r_keys w), w\<lparr>r_keys := insert k (r_keys w)\<rparr>))"

definition mem_redis :: "redis_state redis_client" where
  "mem_redis =
     \<lparr>XAdd = (\<lambda>ctx st vals. mem_XAdd st vals), XReadGroup = (\<lambda>ctx a. mem_XReadGroup a),
      XAck = (\<lambda>ctx st grp m. mem_XAck st grp m),
      XGroupCreateMkStream = (\<lambda>ctx st grp start. mem_XGroupCreate st grp),
      XRangeN = (\<lambda>ctx st a b n. mem_XRangeN st n), XDel = (\<lambda>ctx st ms. mem_XDel st ms),
      SetNX = (\<lambda>ctx k v ttl. mem_SetNX k),
      RPublish = (\<lambda>ctx ch m. State (\<lambda>w. (None, w\<lparr>r_published := r_published w @ [(ch, m)]\<rparr>))),
      RPing = (\<lambda>ctx. State_Monad.return None)\<rparr>"

lemmas mem_redis_defs = mem_redis_def mem_XAdd_def mem_XReadGroup_def mem_XAck_def
  mem_XGroupCreate_def mem_XRangeN_def mem_XDel_def mem_SetNX_def set_stream_def stream_of_def

lemma mem_redis_keys:
  "r_keys (snd (run_state (XAdd mem_redis ctx st vals) w)) = r_keys w"
  "r_keys (snd (run_state (XReadGroup mem_redis ctx a) w)) = r_keys w"
  "r_keys (snd (run_state (XAck mem_redis ctx st grp m) w)) = r_keys w"
  "r_keys (snd (run_state (RPublish mem_redis ctx ch d) w)) = r_keys w"
  by (simp_all add: mem_redis_defs Let_def split: option.splits)

end
