(* ===== verification/Consumer.thy ===== *)
theory Consumer
  imports Interfaces
begin

section \<open>The consumer's message handler\<close>

text \<open>
  \<open>consumer/consumer.go\<close>: the \<open>Consumer\<close> struct, \<open>New\<close>, \<open>WithIdempotency\<close> and what a worker
  does with one message (\<open>processMessage\<close>, \<open>handleTaskFailure\<close>, \<open>acknowledge\<close>,
  \<open>publishEvent\<close>), for arbitrary collaborators. The pool that feeds the handler is in
  \<open>Consumer_Pool\<close>. Logging is left out: nothing reads it.
\<close>

record 'w consumer =
  c_store :: "'w stream_store"
  c_publisher :: "'w event_publisher"
  c_processor :: "'w task_processor"
  c_idempotency :: "'w idempotency_checker option"
  c_stream :: string
  c_group :: string
  c_consumer :: string
  c_workerCount :: int64
  c_fetchBatchSize :: int64
  c_blockTimeout :: duration
  c_dlqStream :: string
  c_maxRetries :: int64

definition new_consumer :: "'w stream_store \<Rightarrow> 'w event_publisher \<Rightarrow> 'w task_processor \<Rightarrow>
    string \<Rightarrow> string \<Rightarrow> string \<Rightarrow> int64 \<Rightarrow> int64 \<Rightarrow> duration \<Rightarrow> string \<Rightarrow> int64 \<Rightarrow> 'w consumer" where
  "new_consumer store publisher processor stream grp consumer workerCount fetchBatchSize
     blockTimeout dlqStream maxRetries =
     \<lparr>c_store = store, c_publisher = publisher, c_processor = processor, c_idempotency = None,
      c_stream = stream, c_group = grp, c_consumer = consumer, c_workerCount = workerCount,
      c_fetchBatchSize = fetchBatchSize, c_blockTimeout = blockTimeout, c_dlqStream = dlqStream,
      c_maxRetries = maxRetries\<rparr>"

definition with_idempotency :: "'w consumer \<Rightarrow> 'w idempotency_checker \<Rightarrow> 'w consumer" where
  "with_idempotency c checker = c\<lparr>c_idempotency := Some checker\<rparr>"

subsection \<open>The handler\<close>

definition acknowledge :: "'w consumer \<Rightarrow> go_ctx \<Rightarrow> string \<Rightarrow> ('w, unit) state" where
  "acknowledge c ctx msgID = do {
     _ \<leftarrow> store_Ack (c_store c) ctx (c_stream c) (c_group c) msgID;
     State_Monad.return ()
   }"

definition publish_event :: "'w consumer \<Rightarrow> go_ctx \<Rightarrow> event \<Rightarrow> ('w, unit) state" where
  "publish_event c ctx e = do {
     _ \<leftarrow> c_publisher c ctx e;
     State_Monad.return ()
   }"

definition handle_task_failure :: "'w runtime \<Rightarrow> 'w consumer \<Rightarrow> go_ctx \<Rightarrow> task \<Rightarrow> string \<Rightarrow> error \<Rightarrow>
    string \<Rightarrow> ('w, unit) state" where
  "handle_task_failure rt c ctx t0 originalMsgID processErr workerStrID =
     (let t = t0\<lparr>Error := processErr\<rparr> in
      if sless64 (CurrentRetries t) (MaxRetries t) then do {
        let t1 = t\<lparr>CurrentRetries := CurrentRetries t + 1\<rparr>;
        r \<leftarrow> store_Add (c_store c) ctx (c_stream c) t1;
        (case r of Inl _ \<Rightarrow> State_Monad.return () | Inr _ \<Rightarrow> acknowledge c ctx originalMsgID)
      } else do {
        _ \<leftarrow> rt_inc rt (TasksDLQTotal (Type t));
        _ \<leftarrow> publish_event c ctx \<lparr>EType = ''DLQ'', TaskID = ID t, WorkerID = workerStrID\<rparr>;
        r \<leftarrow> store_Add (c_store c) ctx (c_dlqStream c) t;
        (case r of Inl _ \<Rightarrow> State_Monad.return () | Inr _ \<Rightarrow> acknowledge c ctx originalMsgID)
      })"

text \<open>The idempotency gate: \<open>True\<close> for a task to skip. A failed check lets the task through.\<close>

definition is_duplicate :: "'w consumer \<Rightarrow> go_ctx \<Rightarrow> task \<Rightarrow> ('w, bool) state" where
  "is_duplicate c ctx t = (case c_idempotency c of
     None \<Rightarrow> State_Monad.return False
   | Some check \<Rightarrow>
       if IdempotencyKey t = [] then State_Monad.return False
       else do {
         r \<leftarrow> check ctx (IdempotencyKey t);
         (case r of Inl _ \<Rightarrow> State_Monad.return False
          | Inr isNew \<Rightarrow> State_Monad.return (\<not> isNew))
       })"

definition worker_id :: "'w consumer \<Rightarrow> int \<Rightarrow> string" where
  "worker_id c workerID = c_consumer c @ ''-'' @ show_int workerID"

definition process_ctx :: "go_ctx \<Rightarrow> task \<Rightarrow> go_ctx" where
  "process_ctx ctx t = (case Timeout t of None \<Rightarrow> ctx | Some d \<Rightarrow> WithTimeout ctx d)"

datatype outcome = Finished | Crashed

text \<open>
  \<open>processMessage\<close> from the \<open>Processing\<close> event on (\<open>process_task\<close>), and the whole of it. A panic
  of the processor leaves the function at once: \<open>Crashed\<close>.
\<close>

definition process_task :: "'w runtime \<Rightarrow> 'w consumer \<Rightarrow> go_ctx \<Rightarrow> int \<Rightarrow> string \<Rightarrow> int \<Rightarrow> task \<Rightarrow>
    ('w, outcome) state" where
  "process_task rt c ctx workerID msgID startTime t = do {
     let workerStrID = worker_id c workerID;
     _ \<leftarrow> publish_event c ctx \<lparr>EType = ''Processing'', TaskID = ID t, WorkerID = workerStrID\<rparr>;
     (t', result) \<leftarrow> c_processor c (process_ctx ctx t) t;
     (case result of
        Panicked \<Rightarrow> State_Monad.return Crashed
      | Returned err \<Rightarrow> do {
          now \<leftarrow> rt_now rt;
          _ \<leftarrow> rt_observe rt (TaskDurationSeconds (Type t')) (now - startTime);
          (case err of
             Some e \<Rightarrow> do {
               _ \<leftarrow> rt_inc rt (TasksProcessedTotal (Type t') ''error'');
               _ \<leftarrow> rt_inc rt (TasksFailedTotal (Type t'));
               _ \<leftarrow> publish_event c ctx \<lparr>EType = ''Failed'', TaskID = ID t', WorkerID = workerStrID\<rparr>;
               _ \<leftarrow> handle_task_failure rt c Background t' msgID e workerStrID;
               State_Monad.return Finished
             }
           | None \<Rightarrow> do {
               _ \<leftarrow> rt_inc rt (TasksProcessedTotal (Type t') ''success'');
               _ \<leftarrow> publish_event c ctx \<lparr>EType = ''Completed'', TaskID = ID t', WorkerID = workerStrID\<rparr>;
               _ \<leftarrow> acknowledge c Background msgID;
               State_Monad.return Finished
             })
        })
   }"

definition process_message :: "'w runtime \<Rightarrow> 'w consumer \<Rightarrow> go_ctx \<Rightarrow> int \<Rightarrow> stream_message \<Rightarrow>
    ('w, outcome) state" where
  "process_message rt c ctx workerID msg = do {
     startTime \<leftarrow> rt_now rt;
     (case payload_string msg of
        None \<Rightarrow> do { _ \<leftarrow> acknowledge c Background (MsgID msg); State_Monad.return Finished }
      | Some payload \<Rightarrow>
        (case unmarshal payload of
           Inl _ \<Rightarrow> do { _ \<leftarrow> acknowledge c Background (MsgID msg); State_Monad.return Finished }
         | Inr t \<Rightarrow> do {
             dup \<leftarrow> is_duplicate c ctx t;
             (if dup then do {
                _ \<leftarrow> rt_inc rt TasksDuplicateTotal;
                _ \<leftarrow> acknowledge c Background (MsgID msg);
                State_Monad.return Finished
              } else process_task rt c ctx workerID (MsgID msg) startTime t)
           }))
   }"

subsection \<open>What the handler may do, as a specification of traces\<close>

text \<open>
  The fates of a message, and for each the calls the handler makes, in order, with the results
  it reacts to. The specification knows nothing of the collaborators: every result is free.
\<close>

datatype fate = Unreadable | Duplicate | Panicking | Completed
  | Requeued task | RequeueFailed task | DeadLettered task | DeadLetterFailed task

definition has_checker :: "'w consumer \<Rightarrow> bool" where
  "has_checker c \<longleftrightarrow> c_idempotency c \<noteq> None"

inductive gate_trace :: "bool \<Rightarrow> go_ctx \<Rightarrow> task \<Rightarrow> call list \<Rightarrow> bool \<Rightarrow> bool" where
  gate_off: "\<not> enabled \<or> IdempotencyKey t = [] \<Longrightarrow> gate_trace enabled ctx t [] False"
| gate_error: "enabled \<Longrightarrow> IdempotencyKey t \<noteq> [] \<Longrightarrow>
    gate_trace enabled ctx t [CCheck ctx (IdempotencyKey t) (Inl e)] False"
| gate_checked: "enabled \<Longrightarrow> IdempotencyKey t \<noteq> [] \<Longrightarrow>
    gate_trace enabled ctx t [CCheck ctx (IdempotencyKey t) (Inr isNew)] (\<not> isNew)"

text \<open>What the gate can have done.\<close>

inductive_cases gate_traceE: "gate_trace enabled ctx t g dup"

definition failed_task :: "task \<Rightarrow> error \<Rightarrow> task" where
  "failed_task t e = t\<lparr>Error := e\<rparr>"

definition retried_task :: "task \<Rightarrow> error \<Rightarrow> task" where
  "retried_task t e = t\<lparr>Error := e, CurrentRetries := CurrentRetries t + 1\<rparr>"

inductive failure_trace :: "'w consumer \<Rightarrow> go_ctx \<Rightarrow> task \<Rightarrow> string \<Rightarrow> error \<Rightarrow> string \<Rightarrow> call list \<Rightarrow>
    fate \<Rightarrow> bool" for c ctx t m e wid where
  requeue: "sless64 (CurrentRetries t) (MaxRetries t) \<Longrightarrow>
    failure_trace c ctx t m e wid
      [CAdd ctx (c_stream c) (retried_task t e) (Inr newID), CAck ctx (c_stream c) (c_group c) m r]
      (Requeued (retried_task t e))"
| requeue_failed: "sless64 (CurrentRetries t) (MaxRetries t) \<Longrightarrow>
    failure_trace c ctx t m e wid [CAdd ctx (c_stream c) (retried_task t e) (Inl err)]
      (RequeueFailed (retried_task t e))"
| dead_letter: "\<not> sless64 (CurrentRetries t) (MaxRetries t) \<Longrightarrow>
    failure_trace c ctx t m e wid
      [CInc (TasksDLQTotal (Type t)),
       CPublish ctx \<lparr>EType = ''DLQ'', TaskID = ID t, WorkerID = wid\<rparr> pr,
       CAdd ctx (c_dlqStream c) (failed_task t e) (Inr newID),
       CAck ctx (c_stream c) (c_group c) m r]
      (DeadLettered (failed_task t e))"
| dead_letter_failed: "\<not> sless64 (CurrentRetries t) (MaxRetries t) \<Longrightarrow>
    failure_trace c ctx t m e wid
      [CInc (TasksDLQTotal (Type t)),
       CPublish ctx \<lparr>EType = ''DLQ'', TaskID = ID t, WorkerID = wid\<rparr> pr,
       CAdd ctx (c_dlqStream c) (failed_task t e) (Inl err)]
      (DeadLetterFailed (failed_task t e))"

text \<open>The part of the specification that follows the idempotency gate.\<close>

inductive task_trace :: "'w consumer \<Rightarrow> go_ctx \<Rightarrow> int \<Rightarrow> string \<Rightarrow> task \<Rightarrow> call list \<Rightarrow> fate \<Rightarrow> bool"
  for c ctx w m t where
  task_panics:
    "task_trace c ctx w m t
      [CPublish ctx \<lparr>EType = ''Processing'', TaskID = ID t, WorkerID = worker_id c w\<rparr> r1,
       CProcess (process_ctx ctx t) t (t', Panicked)] Panicking"
| task_completes:
    "task_trace c ctx w m t
      [CPublish ctx \<lparr>EType = ''Processing'', TaskID = ID t, WorkerID = worker_id c w\<rparr> r1,
       CProcess (process_ctx ctx t) t (t', Returned None),
       CObserve (TaskDurationSeconds (Type t')) d,
       CInc (TasksProcessedTotal (Type t') ''success''),
       CPublish ctx \<lparr>EType = ''Completed'', TaskID = ID t', WorkerID = worker_id c w\<rparr> r2,
       CAck Background (c_stream c) (c_group c) m r3] Completed"
| task_fails: "failure_trace c Background t' m e (worker_id c w) f ft \<Longrightarrow>
    task_trace c ctx w m t
      ([CPublish ctx \<lparr>EType = ''Processing'', TaskID = ID t, WorkerID = worker_id c w\<rparr> r1,
        CProcess (process_ctx ctx t) t (t', Returned (Some e)),
        CObserve (TaskDurationSeconds (Type t')) d,
        CInc (TasksProcessedTotal (Type t') ''error''),
        CInc (TasksFailedTotal (Type t')),
        CPublish ctx \<lparr>EType = ''Failed'', TaskID = ID t', WorkerID = worker_id c w\<rparr> r2] @ f) ft"

definition decoded :: "stream_message \<Rightarrow> task option" where
  "decoded msg = (case payload_string msg of None \<Rightarrow> None
     | Some p \<Rightarrow> (case unmarshal p of Inl _ \<Rightarrow> None | Inr t \<Rightarrow> Some t))"

inductive message_trace :: "'w consumer \<Rightarrow> go_ctx \<Rightarrow> int \<Rightarrow> stream_message \<Rightarrow> call list \<Rightarrow> fate \<Rightarrow> bool"
  for c ctx w msg where
  unreadable: "decoded msg = None \<Longrightarrow>
    message_trace c ctx w msg [CAck Background (c_stream c) (c_group c) (MsgID msg) r] Unreadable"
| duplicate: "decoded msg = Some t \<Longrightarrow> gate_trace (has_checker c) ctx t g True \<Longrightarrow>
    message_trace c ctx w msg
      (g @ [CInc TasksDuplicateTotal, CAck Background (c_stream c) (c_group c) (MsgID msg) r]) Duplicate"
| processed: "decoded msg = Some t \<Longrightarrow> gate_trace (has_checker c) ctx t g False \<Longrightarrow>
    task_trace c ctx w (MsgID msg) t tr ft \<Longrightarrow> message_trace c ctx w msg (g @ tr) ft"

subsection \<open>The handler with spied collaborators meets the specification\<close>

definition spy_consumer :: "'w consumer \<Rightarrow> 'w spied consumer" where
  "spy_consumer c =
     \<lparr>c_store = spy_store (c_store c), c_publisher = spy_publisher (c_publisher c),
      c_processor = spy_processor (c_processor c),
      c_idempotency = map_option spy_checker (c_idempotency c), c_stream = c_stream c,
      c_group = c_group c, c_consumer = c_consumer c, c_workerCount = c_workerCount c,
      c_fetchBatchSize = c_fetchBatchSize c, c_blockTimeout = c_blockTimeout c,
      c_dlqStream = c_dlqStream c, c_maxRetries = c_maxRetries c\<rparr>"

lemma spy_consumer_simps [simp]:
  "c_store (spy_consumer c) = spy_store (c_store c)"
  "c_publisher (spy_consumer c) = spy_publisher (c_publisher c)"
  "c_processor (spy_consumer c) = spy_processor (c_processor c)"
  "c_idempotency (spy_consumer c) = map_option spy_checker (c_idempotency c)"
  "c_stream (spy_consumer c) = c_stream c" "c_group (spy_consumer c) = c_group c"
  "c_consumer (spy_consumer c) = c_consumer c" "c_dlqStream (spy_consumer c) = c_dlqStream c"
  "worker_id (spy_consumer c) = worker_id c"
  by (simp_all add: spy_consumer_def worker_id_def fun_eq_iff)

lemma yields_acknowledge [yields_intros]:
  "(\<And>r. Q () [CAck ctx (c_stream c) (c_group c) m r]) \<Longrightarrow> yields (acknowledge (spy_consumer c) ctx m) Q"
  unfolding acknowledge_def by (auto intro!: yields_intros)

lemma yields_publish_event [yields_intros]:
  "(\<And>r. Q () [CPublish ctx e r]) \<Longrightarrow> yields (publish_event (spy_consumer c) ctx e) Q"
  unfolding publish_event_def by (auto intro!: yields_intros)

lemma yields_is_duplicate [yields_intros]:
  assumes "\<And>dup g. gate_trace (has_checker c) ctx t g dup \<Longrightarrow> Q dup g"
  shows "yields (is_duplicate (spy_consumer c) ctx t) Q"
  unfolding is_duplicate_def
  by (auto simp: has_checker_def intro!: yields_intros assms gate_trace.intros split: option.splits sum.splits)

lemmas failure_trace_unfolded = failure_trace.intros [unfolded failed_task_def retried_task_def]

lemma yields_handle_task_failure [yields_intros]:
  assumes "\<And>f ft. failure_trace c ctx t m e wid f ft \<Longrightarrow> Q () f"
  shows "yields (handle_task_failure (spy_runtime rt) (spy_consumer c) ctx t m e wid) Q"
  unfolding handle_task_failure_def Let_def
  by (auto intro!: yields_intros split: sum.splits)
     (rule assms, rule failure_trace_unfolded, simp)+

lemma failure_not_panicking: "failure_trace c ctx t m e wid f ft \<Longrightarrow> ft \<noteq> Panicking"
  by (induction rule: failure_trace.induct) auto

definition outcome_of :: "fate \<Rightarrow> outcome" where
  "outcome_of ft = (if ft = Panicking then Crashed else Finished)"

lemma yields_process_task [yields_intros]:
  assumes "\<And>tr ft. task_trace c ctx w m t tr ft \<Longrightarrow> Q (outcome_of ft) tr"
  shows "yields (process_task (spy_runtime rt) (spy_consumer c) ctx w m start t) Q"
proof -
  note panics = assms [OF task_panics, unfolded outcome_of_def, simplified]
  note completes = assms [OF task_completes, unfolded outcome_of_def, simplified]
  have fails: "Q Finished ([CPublish ctx \<lparr>EType = ''Processing'', TaskID = ID t, WorkerID = worker_id c w\<rparr> r1,
        CProcess (process_ctx ctx t) t (t', Returned (Some e)),
        CObserve (TaskDurationSeconds (Type t')) d,
        CInc (TasksProcessedTotal (Type t') ''error''),
        CInc (TasksFailedTotal (Type t')),
        CPublish ctx \<lparr>EType = ''Failed'', TaskID = ID t', WorkerID = worker_id c w\<rparr> r2] @ f)"
    if "failure_trace c Background t' m e (worker_id c w) f ft" for t' e f ft r1 r2 d
    using assms [OF task_fails [OF that]] failure_not_panicking [OF that] by (simp add: outcome_of_def)
  show ?thesis
    unfolding process_task_def Let_def
    by (auto intro!: yields_intros panics completes split: proc_result.splits option.splits)
       (rule fails [simplified], assumption)
qed

text \<open>
  The handler implements the specification: whatever the collaborators answer, what it does is
  one of the traces, and it crashes exactly when the processor panicked.
\<close>

lemma yields_process_message [yields_intros]:
  assumes "\<And>tr ft. message_trace c ctx w msg tr ft \<Longrightarrow> Q (outcome_of ft) tr"
  shows "yields (process_message (spy_runtime rt) (spy_consumer c) ctx w msg) Q"
proof -
  note unreadable = assms [OF message_trace.unreadable, unfolded outcome_of_def, simplified]
  have duplicate: "Q Finished (g @ [CInc TasksDuplicateTotal, CAck Background (c_stream c) (c_group c) (MsgID msg) r])"
    if "unmarshal p = Inr t" "payload_string msg = Some p" "gate_trace (has_checker c) ctx t g True" for p t g r
    using assms [OF message_trace.duplicate [OF _ that(3)]] that(1,2) by (simp add: decoded_def outcome_of_def)
  have processed: "Q (outcome_of ft) (g @ tr)"
    if "unmarshal p = Inr t" "payload_string msg = Some p" "gate_trace (has_checker c) ctx t g False"
      "task_trace c ctx w (MsgID msg) t tr ft" for p t g tr ft
    using assms [OF message_trace.processed [OF _ that(3,4)]] that(1,2) by (simp add: decoded_def)
  show ?thesis
    unfolding process_message_def
    by (auto intro!: yields_intros unreadable simp: decoded_def split: option.splits sum.splits)
       (rule duplicate processed, assumption+)+
qed

text \<open>
  The handler implements the specification: whatever the collaborators answer, what it does is
  one of the traces, and it crashes exactly when the processor panicked.
\<close>

lemma process_message_refines:
  assumes "run_state (process_message (spy_runtime rt) (spy_consumer c) ctx w msg) s = (oc, s')"
  obtains tr ft where "calls s' = calls s @ tr" and "message_trace c ctx w msg tr ft" and "oc = outcome_of ft"
  using yieldsD [OF yields_process_message assms, of "\<lambda>oc tr. \<exists>ft. message_trace c ctx w msg tr ft \<and> oc = outcome_of ft"]
  by blast

text \<open>The spies are invisible: with them the handler returns the same and leaves the same state.\<close>

lemma mirrors_acknowledge [mirrors_intros]: "mirrors (acknowledge c ctx m) (acknowledge (spy_consumer c) ctx m)"
  unfolding acknowledge_def by (auto intro!: mirrors_intros)

lemma mirrors_publish_event [mirrors_intros]:
  "mirrors (publish_event c ctx e) (publish_event (spy_consumer c) ctx e)"
  unfolding publish_event_def by (auto intro!: mirrors_intros)

lemma mirrors_is_duplicate [mirrors_intros]:
  "mirrors (is_duplicate c ctx t) (is_duplicate (spy_consumer c) ctx t)"
  unfolding is_duplicate_def by (auto intro!: mirrors_intros split: option.splits sum.splits)

lemma mirrors_handle_task_failure [mirrors_intros]:
  "mirrors (handle_task_failure rt c ctx t m e wid)
     (handle_task_failure (spy_runtime rt) (spy_consumer c) ctx t m e wid)"
  unfolding handle_task_failure_def Let_def by (auto intro!: mirrors_intros split: sum.splits)

lemma mirrors_process_task [mirrors_intros]:
  "mirrors (process_task rt c ctx w m start t)
     (process_task (spy_runtime rt) (spy_consumer c) ctx w m start t)"
  unfolding process_task_def Let_def
  by (auto intro!: mirrors_intros split: proc_result.splits option.splits)

lemma mirrors_process_message [mirrors_intros]:
  "mirrors (process_message rt c ctx w msg) (process_message (spy_runtime rt) (spy_consumer c) ctx w msg)"
  unfolding process_message_def
  by (auto intro!: mirrors_intros split: option.splits sum.splits)

text \<open>The calls one run of the handler makes, and its outcome.\<close>

definition handler_calls :: "'w runtime \<Rightarrow> 'w consumer \<Rightarrow> go_ctx \<Rightarrow> int \<Rightarrow> stream_message \<Rightarrow> 'w \<Rightarrow> call list" where
  "handler_calls rt c ctx w msg s =
     calls (snd (run_state (process_message (spy_runtime rt) (spy_consumer c) ctx w msg)
       \<lparr>calls = [], world = s\<rparr>))"

definition handler_outcome :: "'w runtime \<Rightarrow> 'w consumer \<Rightarrow> go_ctx \<Rightarrow> int \<Rightarrow> stream_message \<Rightarrow> 'w \<Rightarrow> outcome" where
  "handler_outcome rt c ctx w msg s = fst (run_state (process_message rt c ctx w msg) s)"

text \<open>The outside state after a run.\<close>

definition handler_state :: "'w runtime \<Rightarrow> 'w consumer \<Rightarrow> go_ctx \<Rightarrow> int \<Rightarrow> stream_message \<Rightarrow> 'w \<Rightarrow> 'w" where
  "handler_state rt c ctx w msg s = snd (run_state (process_message rt c ctx w msg) s)"

lemma handler_trace:
  obtains ft where "message_trace c ctx w msg (handler_calls rt c ctx w msg s) ft"
    and "handler_outcome rt c ctx w msg s = outcome_of ft"
proof -
  let ?s = "\<lparr>calls = [], world = s\<rparr>"
  obtain oc s' where run: "run_state (process_message (spy_runtime rt) (spy_consumer c) ctx w msg) ?s = (oc, s')"
    by fastforce
  then have "handler_outcome rt c ctx w msg s = oc"
    using mirrors_process_message [unfolded mirrors_def, rule_format, of rt c ctx w msg ?s]
    by (simp add: handler_outcome_def)
  moreover obtain tr ft where "calls s' = tr" "message_trace c ctx w msg tr ft" "oc = outcome_of ft"
    using process_message_refines [OF run] by auto
  ultimately show ?thesis using that run by (simp add: handler_calls_def)
qed

end
