(* ===== verification/Json_Roundtrip.thy ===== *)
theory Json_Roundtrip
  imports Go_Json
begin

section \<open>What encoding/json writes, it reads back\<close>

text \<open>
  The facts about the JSON model that the task codec rests on: quoting is inverted by unquoting
  on valid UTF-8; a quoted string and a compacted document are values without white space
  outside strings (\<open>tight\<close>), which the decoder cuts out of an object unchanged; such a value
  may stand in any container, up to the scanner's nesting limit.
\<close>

text \<open>
  The contract of an encoder and its decoder: a value in the encoder's domain is encoded, and
  decodes to its normal form. Two values with the same encoding have the same normal form.
\<close>

locale codec =
  fixes encode :: "'a \<Rightarrow> 'b option" and decode :: "'b \<Rightarrow> 'a option"
    and encodable :: "'a \<Rightarrow> bool" and normal :: "'a \<Rightarrow> 'a"
  assumes decode_encode: "encodable a \<Longrightarrow> \<exists>b. encode a = Some b \<and> decode b = Some (normal a)"
begin

lemma encode_total: "encodable a \<Longrightarrow> encode a \<noteq> None"
  using decode_encode by fastforce

lemma decode_encoded: "encodable a \<Longrightarrow> encode a = Some b \<Longrightarrow> decode b = Some (normal a)"
  using decode_encode by fastforce

lemma encode_injective: "encodable a \<Longrightarrow> encodable b \<Longrightarrow> encode a = encode b \<Longrightarrow> normal a = normal b"
  using decode_encode [of a] decode_encode [of b] by auto

end

subsection \<open>Strings\<close>

lemma char_eqI: "byte c = byte d \<Longrightarrow> c = d"
  by (simp add: byte_inject)

lemma hex_val_digit: "n < 16 \<Longrightarrow> hex_val (hex_digit n) = Some n"
  by (auto simp: hex_val_def hex_digit_def in_bytes_def)

lemma getu4_unicode:
  "a < 16 \<Longrightarrow> b < 16 \<Longrightarrow> c < 16 \<Longrightarrow> d < 16 \<Longrightarrow>
   getu4 (backslash # CHR ''u'' # hex_digit a # hex_digit b # hex_digit c # hex_digit d # r) =
     Some (((a * 16 + b) * 16 + c) * 16 + d)"
  by (simp add: getu4_def hex_val_digit)

lemma hex_digits_lit: "hex_digit 0 = CHR ''0''" "hex_digit 2 = CHR ''2''"
  by (simp_all add: hex_digit_def char_eqI)

lemma append_single: "(@) [c] = (#) c"
  by (simp add: fun_eq_iff)

lemma unquote_escape_ascii:
  assumes "byte c < 0x80"
  shows "unquote_body (escape_ascii c @ r) = map_option (\<lambda>t. c # t) (unquote_body r)"
proof -
  consider (quoted) "c = dquote \<or> c = backslash"
    | (simple) "c \<noteq> dquote" "c \<noteq> backslash" "byte c \<in> {8, 9, 10, 12, 13}"
    | (unicode) "c \<noteq> dquote" "c \<noteq> backslash" "byte c \<notin> {8, 9, 10, 12, 13}"
        "byte c < 32 \<or> c = CHR ''<'' \<or> c = CHR ''>'' \<or> c = CHR ''&''"
    | (plain) "c \<noteq> dquote" "c \<noteq> backslash" "\<not> byte c < 32"
        "c \<noteq> CHR ''<''" "c \<noteq> CHR ''>''" "c \<noteq> CHR ''&''"
    by blast
  then show ?thesis
  proof cases
    case quoted
    then show ?thesis by (auto simp: escape_ascii_def unquote_body.simps(2) [of backslash] simple_escape_def)
  next
    case simple
    from simple(3) have "c = char_of (8::nat) \<or> c = char_of (9::nat) \<or> c = char_of (10::nat) \<or>
        c = char_of (12::nat) \<or> c = char_of (13::nat)"
      by (auto intro: char_eqI)
    with simple show ?thesis
      by (auto simp: escape_ascii_def unquote_body.simps(2) [of backslash] simple_escape_def)
  next
    case unicode
    then have u: "escape_ascii c =
        [backslash, CHR ''u'', hex_digit 0, hex_digit 0, hex_digit (byte c div 16), hex_digit (byte c mod 16)]"
      by (simp add: escape_ascii_def hex_digits_lit)
    have d: "byte c div 16 < 16" "byte c mod 16 < 16" using assms by simp_all
    have "getu4 (escape_ascii c @ r) = Some (byte c)"
      unfolding u using getu4_unicode [OF _ _ d, of 0 0 r] by simp
    moreover have "\<not> is_surrogate (byte c)" "encode_rune (byte c) = [c]"
      using assms by (simp_all add: is_surrogate_def encode_rune_def)
    ultimately show ?thesis unfolding u
      by (simp add: unquote_body.simps(2) [of backslash] append_single)
  next
    case plain
    then have "escape_ascii c = [c]" by (auto simp: escape_ascii_def)
    then show ?thesis using assms plain by (simp add: unquote_body.simps(2) [of c])
  qed
qed

lemma if_else_0: "n \<noteq> 0 \<Longrightarrow> (if P then k else 0) = n \<longleftrightarrow> P \<and> k = (n::nat)"
  by simp

lemma rune_size_range:
  assumes "rune_size (a # s) \<noteq> 0"
  obtains "byte a < 0x80" | "\<not> byte a < 0x80" "0xC2 \<le> byte a \<and> byte a \<le> 0xDF"
    | "\<not> byte a < 0x80" "\<not> (0xC2 \<le> byte a \<and> byte a \<le> 0xDF)" "0xE0 \<le> byte a \<and> byte a \<le> 0xEF"
    | "\<not> byte a < 0x80" "\<not> (0xC2 \<le> byte a \<and> byte a \<le> 0xDF)" "\<not> (0xE0 \<le> byte a \<and> byte a \<le> 0xEF)"
      "0xF0 \<le> byte a \<and> byte a \<le> 0xF4"
proof -
  have "rune_size (a # s) = 0" if "\<not> byte a < 0x80" "\<not> (0xC2 \<le> byte a \<and> byte a \<le> 0xDF)"
      "\<not> (0xE0 \<le> byte a \<and> byte a \<le> 0xEF)" "\<not> (0xF0 \<le> byte a \<and> byte a \<le> 0xF4)"
    using that by (simp only: rune_size_def Let_def list.case if_False)
  then show thesis using that assms by blast
qed

lemma rune_size_take:
  assumes "rune_size s = n" and "n \<noteq> 0"
  shows "rune_size (take n s @ r) = n" and "n \<le> length s"
proof -
  obtain a s1 where s: "s = a # s1" using assms by (cases s) (auto simp: rune_size_def)
  have a: "rune_size (a # s1) \<noteq> 0" using assms s by simp
  show "rune_size (take n s @ r) = n" and "n \<le> length s"
    using a assms
    by (cases rule: rune_size_range;
        auto simp: s rune_size_def Let_def if_else_0 split: list.splits split del: if_split)+
qed

lemma unquote_separator:
  assumes "line_separator s"
  shows "unquote_body (escape_separator s @ r) = map_option (\<lambda>t. take 3 s @ t) (unquote_body r)"
    and "rune_size s = 3"
proof -
  obtain c u where s: "s = CHR 0xE2 # CHR 0x80 # c # u" and c: "c = CHR 0xA8 \<or> c = CHR 0xA9"
    using assms unfolding line_separator_def
    by (cases s; cases "tl s"; cases "tl (tl s)") auto
  define d where "d = byte c mod 16"
  have d: "d < 16" "d = 8 \<or> d = 9" "c = char_of (0xA0 + d)" using c by (auto simp: d_def intro: char_eqI)
  have esc: "escape_separator s =
      [backslash, CHR ''u'', hex_digit 2, hex_digit 0, hex_digit 2, hex_digit d]"
    by (simp add: escape_separator_def s d_def hex_digits_lit)
  have "getu4 (escape_separator s @ r) = Some (8224 + d)"
    unfolding esc using getu4_unicode [OF _ _ _ d(1), of 2 0 2 r] by simp
  moreover have "encode_rune (8224 + d) = take 3 s"
    using d(2) by (auto simp: s d(3) encode_rune_def intro: char_eqI)
  moreover have "\<not> is_surrogate (8224 + d)"
    using d(2) by (auto simp: is_surrogate_def)
  ultimately show "unquote_body (escape_separator s @ r) = map_option (\<lambda>t. take 3 s @ t) (unquote_body r)"
    unfolding esc by (simp add: unquote_body.simps(2) [of backslash])
  show "rune_size s = 3" using c by (auto simp: s rune_size_def in_bytes_def)
qed

lemma unquote_quote_body: "valid_utf8 s \<Longrightarrow> unquote_body (quote_body s) = Some s"
proof (induction s rule: quote_body.induct)
  case (2 c s)
  let ?n = "rune_size (c # s)"
  have n: "?n \<noteq> 0" "valid_utf8 (drop (?n - 1) s)" using "2.prems" by (simp_all add: valid_utf8.simps)
  show ?case
  proof (cases "byte c < 0x80")
    case True
    then have "?n = 1" by (simp add: rune_size_def)
    then show ?thesis using 2 True n by (simp add: quote_body.simps(2) unquote_escape_ascii)
  next
    case False
    show ?thesis
    proof (cases "line_separator (c # s)")
      case True
      have r: "?n = 3" using unquote_separator(2) [OF True] .
      then have "unquote_body (quote_body (drop 2 s)) = Some (drop 2 s)"
        using 2(3) [OF False _ True] n by simp
      then have "unquote_body (quote_body (c # s)) = Some (take 3 (c # s) @ drop 3 (c # s))"
        using False True r n unquote_separator(1) [OF True] by (simp add: quote_body.simps(2) del: take_Suc_Cons take_Cons_numeral)
      then show ?thesis by (simp only: append_take_drop_id)
    next
      case sep: False
      obtain m where m: "?n = Suc m" using n(1) by (cases ?n) auto
      have take: "take ?n (c # s) = c # take m s" by (simp add: m)
      have "rune_size (c # take m s @ r) = Suc m" and "m \<le> length s" for r
        using rune_size_take(1) [OF m, of r] rune_size_take(2) [OF m] by simp_all
      moreover have "c \<noteq> backslash" "c \<noteq> dquote" "\<not> byte c < 32" using False by auto
      ultimately show ?thesis using 2 False sep n m
        by (simp add: quote_body.simps(2) unquote_body.simps(2) [of c])
    qed
  qed
qed (simp add: quote_body.simps(1) unquote_body.simps(1))

lemma unquote_quote: "valid_utf8 s \<Longrightarrow> unquote (quote s) = Some s"
  by (simp add: unquote_def quote_def unquote_quote_body butlast_append)

subsection \<open>Values without white space\<close>

text \<open>
  \<open>tight p s\<close>: the scanner runs over \<open>s\<close> from \<open>p\<close> without a white space outside a string.
  \<open>depth p s\<close>: the deepest stack on the way.
\<close>

fun tight :: "jconf \<Rightarrow> string \<Rightarrow> bool" where
  "tight p [] = True"
| "tight p (c # cs) = ((is_space c \<longrightarrow> fst p = InString) \<and>
     (case jnext (fst p) (snd p) c of None \<Rightarrow> False | Some q \<Rightarrow> tight q cs))"

fun depth :: "jconf \<Rightarrow> string \<Rightarrow> nat" where
  "depth p [] = length (snd p)"
| "depth p (c # cs) =
     max (length (snd p)) (case jnext (fst p) (snd p) c of None \<Rightarrow> 0 | Some q \<Rightarrow> depth q cs)"

lemma jrun_append: "jrun p (s @ t) = (case jrun p s of None \<Rightarrow> None | Some q \<Rightarrow> jrun q t)"
  by (induction p s rule: jrun.induct) (auto split: option.splits)

lemma tight_append: "tight p (s @ t) \<longleftrightarrow> tight p s \<and> (case jrun p s of None \<Rightarrow> False | Some q \<Rightarrow> tight q t)"
  by (induction p s rule: jrun.induct) (auto split: option.splits)

lemma tight_jrun: "tight p s \<Longrightarrow> \<exists>q. jrun p s = Some q"
  by (induction p s rule: jrun.induct) (auto split: option.splits)

text \<open>The states the scanner can be in.\<close>

definition scannable :: "jconf \<Rightarrow> bool" where
  "scannable p \<longleftrightarrow> (case fst p of Lit cs \<Rightarrow> list_all (in_bytes 97 122) cs
     | BeginStringOrEmpty \<Rightarrow> snd p \<noteq> [] | _ \<Rightarrow> True)"

lemma begin_valueE:
  assumes "begin_value stk c = Some q"
  obtains (space) "is_space c" "q = (BeginValue, stk)"
    | (object) "c = CHR ''{''" "q = (BeginStringOrEmpty, ObjKey # stk)"
    | (array) "c = CHR ''[''" "q = (BeginValueOrEmpty, ArrVal # stk)"
    | (token) st where "\<not> is_space c" "c \<notin> {CHR ''<'', CHR ''>'', CHR ''&'', CHR 0xE2}" "q = (st, stk)"
        "st \<in> {InString, Neg, Num0, Num1, Lit ''rue'', Lit ''alse'', Lit ''ull''}"
proof -
  have digit: "is_digit c \<Longrightarrow> c \<notin> {CHR ''<'', CHR ''>'', CHR ''&'', CHR 0xE2}"
    by (auto simp: is_digit_def)
  show thesis
    using assms unfolding begin_value_def push_def
    by (simp only: split: if_split_asm) (use that digit in \<open>auto\<close>)
qed

lemma end_valueE:
  assumes "end_value stk c = Some q"
  obtains (space) "is_space c" "q = (EndValue, stk)"
    | (mark) x xs st ys where "stk = x # xs" "\<not> is_space c" "c \<in> {CHR '':'', CHR '','', CHR ''}'', CHR '']''}"
        "q = (st, ys)" "st \<in> {BeginValue, BeginString, EndValue}"
proof (cases stk)
  case Nil
  with assms that show thesis by (simp split: if_split_asm)
next
  case (Cons x xs)
  with assms that show thesis by (cases x) (auto split: if_split_asm)
qed
lemma is_space_bytes: "is_space c \<Longrightarrow> byte c \<in> {9, 10, 13, 32}"
  by (auto simp: is_space_def)

lemma lits_scannable: "list_all (in_bytes 97 122) ''rue''" "list_all (in_bytes 97 122) ''alse''"
  "list_all (in_bytes 97 122) ''ull''"
  by (simp_all add: in_bytes_def)

lemma begin_value_scannable: "begin_value stk c = Some q \<Longrightarrow> scannable q"
  by (erule begin_valueE) (auto simp: scannable_def in_bytes_def)

lemma end_value_scannable: "end_value stk c = Some q \<Longrightarrow> scannable q"
  by (erule end_valueE) (auto simp: scannable_def)

lemma jnext_scannable:
  assumes "jnext (fst p) (snd p) c = Some q" and "scannable p"
  shows "scannable q"
proof (cases p)
  case (Pair st stk)
  show ?thesis
  proof (cases st)
    case (Lit cs)
    with assms Pair show ?thesis by (auto simp: scannable_def split: list.splits if_split_asm)
  qed (use assms Pair in \<open>auto simp: scannable_def begin_string_def after_int_def
      dest: begin_value_scannable end_value_scannable split: if_split_asm\<close>)
qed

text \<open>The bytes that compaction escapes occur in strings only.\<close>

lemma escaped_in_string:
  assumes "jnext (fst p) (snd p) c = Some q" and "scannable p"
    and "c \<in> {CHR ''<'', CHR ''>'', CHR ''&'', CHR 0xE2}"
  shows "fst p = InString \<and> q = p"
proof (cases p)
  case (Pair st stk)
  have c: "\<not> is_space c" "\<not> is_digit c" "hex_val c = None" "\<not> in_bytes 97 122 c"
    using assms(3) by (auto simp: is_space_def is_digit_def hex_val_def in_bytes_def)
  have "False" if "begin_value stk c = Some r" for r
    using that c assms(3) by (elim begin_valueE) auto
  moreover have "False" if "end_value stk' c = Some r" for r stk'
    using that c assms(3) by (elim end_valueE) auto
  ultimately have b: "begin_value stk c = None" "end_value stk' c = None" for stk'
    by (meson not_None_eq)+
  show ?thesis
  proof (cases st)
    case (Lit cs)
    with assms Pair c show ?thesis by (auto simp: scannable_def split: list.splits if_split_asm)
  qed (use assms(1,3) Pair b c in \<open>auto simp: begin_string_def after_int_def split: if_split_asm\<close>)
qed

text \<open>A white space outside a string settles the state without changing what may follow.\<close>

lemma space_settles:
  assumes "jnext (fst p) (snd p) b = Some q" and "is_space b" and "fst p \<noteq> InString" and "scannable p"
  shows "snd q = snd p" and "fst q \<noteq> InString" and "jaccept q \<Longrightarrow> jaccept p"
    and "\<not> is_space c \<Longrightarrow> jnext (fst q) (snd q) c = Some r \<Longrightarrow> jnext (fst p) (snd p) c = Some r"
proof -
  obtain st stk where p: "p = (st, stk)" by (cases p)
  have b: "\<not> is_digit b" "hex_val b = None" "\<not> in_bytes 97 122 b"
    using is_space_bytes [OF assms(2)] by (auto simp: is_digit_def hex_val_def in_bytes_def)
  have marks: "b \<notin> {CHR '']'', CHR ''}'', dquote, backslash, CHR ''.'', CHR ''e'', CHR ''E'', CHR ''+'', CHR ''-'', CHR ''0'',
      CHR ''b'', CHR ''f'', CHR ''n'', CHR ''r'', CHR ''t'', CHR ''/'', CHR ''u''}"
    using is_space_bytes [OF assms(2)] by auto
  have bv: "begin_value stk b = Some (BeginValue, stk)" "end_value stk b = Some (EndValue, stk)"
    using assms(2) by (cases stk; simp add: begin_value_def)+
  have q: "q = p \<or> q = (EndValue, stk) \<and> st \<in> {Num1, Num0, Dot0, Exp0}"
  proof (cases st)
    case (Lit cs)
    with assms p b show ?thesis by (auto simp: scannable_def split: list.splits if_split_asm)
  qed (use assms p b bv marks in \<open>auto simp: begin_string_def after_int_def split: if_split_asm\<close>)
  have step: "jnext st stk c = Some r" if "st \<in> {Num1, Num0, Dot0, Exp0}" "\<not> is_space c" "end_value stk c = Some r" for c r
  proof -
    from that(3,2) have "c \<in> {CHR '':'', CHR '','', CHR ''}'', CHR '']''}" by (elim end_valueE) auto
    then have "c \<notin> {CHR ''.'', CHR ''e'', CHR ''E''}" "\<not> is_digit c" by (auto simp: is_digit_def)
    with that show ?thesis by (auto simp: after_int_def)
  qed
  have acc: "jaccept (st, stk)" if "st \<in> {Num1, Num0, Dot0, Exp0}" "jaccept (EndValue, stk)"
  proof -
    from that(2) have "stk = []" by (cases stk) (auto simp: jaccept_def is_space_def)
    with that(1) show ?thesis by (auto simp: jaccept_def after_int_def is_space_def is_digit_def)
  qed
  show "snd q = snd p" and "fst q \<noteq> InString" using q p assms(3) by auto
  show "jaccept p" if "jaccept q" using q p acc that by auto
  show "jnext (fst p) (snd p) c = Some r" if "\<not> is_space c" "jnext (fst q) (snd q) c = Some r"
    using q
  proof
    assume "q = (EndValue, stk) \<and> st \<in> {Num1, Num0, Dot0, Exp0}"
    then show ?thesis using step [of c r] that p by simp
  qed (use that in simp)
qed


subsection \<open>Strings and numbers under the scanner\<close>

text \<open>Bytes that keep the scanner inside a string.\<close>

definition flat :: "jctx list \<Rightarrow> string \<Rightarrow> bool" where
  "flat stk s \<longleftrightarrow> jrun (InString, stk) s = Some (InString, stk) \<and> tight (InString, stk) s \<and>
     depth (InString, stk) s = length stk"

lemma depth_append: "jrun p s = Some q \<Longrightarrow> depth p (s @ t) = max (depth p s) (depth q t)"
proof (induction p s rule: jrun.induct)
  case (1 p)
  have "length (snd p) \<le> depth p t" by (cases t) auto
  with 1 show ?case by simp
qed (auto split: option.splits)

lemma flat_Nil: "flat stk []"
  by (simp add: flat_def)

lemma flat_append: "flat stk s \<Longrightarrow> flat stk t \<Longrightarrow> flat stk (s @ t)"
  by (simp add: flat_def jrun_append tight_append depth_append)

definition plain :: "char \<Rightarrow> bool" where
  "plain c \<longleftrightarrow> c \<noteq> dquote \<and> c \<noteq> backslash \<and> \<not> byte c < 32"

lemma flat_plain: "list_all plain s \<Longrightarrow> flat stk s"
  by (induction s) (auto simp: flat_def plain_def)

lemma hex_digit_val: "n < 16 \<Longrightarrow> \<not> is_space (hex_digit n) \<and> hex_val (hex_digit n) \<noteq> None"
proof
  assume n: "n < 16"
  then have "48 \<le> byte (hex_digit n)" by (simp add: hex_digit_def)
  then show "\<not> is_space (hex_digit n)" by (auto dest: is_space_bytes)
  show "hex_val (hex_digit n) \<noteq> None" using n by (simp add: hex_val_digit)
qed

lemma flat_unicode:
  "a < 16 \<Longrightarrow> b < 16 \<Longrightarrow> c < 16 \<Longrightarrow> d < 16 \<Longrightarrow>
   flat stk [backslash, CHR ''u'', hex_digit a, hex_digit b, hex_digit c, hex_digit d]"
  using hex_digit_val [of a] hex_digit_val [of b] hex_digit_val [of c] hex_digit_val [of d]
  by (auto simp: flat_def is_space_def)

lemma flat_escape_ascii:
  assumes "byte c < 0x80"
  shows "flat stk (escape_ascii c)"
proof (cases "plain c \<and> c \<notin> {CHR ''<'', CHR ''>'', CHR ''&''}")
  case True
  then have "escape_ascii c = [c]" by (auto simp: escape_ascii_def plain_def)
  then show ?thesis using True by (simp add: flat_plain)
next
  case False
  have d: "byte c div 16 < 16" "byte c mod 16 < 16" using assms by simp_all
  show ?thesis
    using flat_unicode [OF _ _ d, of 0 0 stk]
    by (auto simp: escape_ascii_def hex_digits_lit flat_def is_space_def)
qed

lemma flat_escape_separator: "flat stk (escape_separator s)"
  using flat_unicode [of 2 0 2 "byte (s ! 2) mod 16" stk] by (simp add: escape_separator_def hex_digits_lit)

lemma rune_bytes:
  assumes "rune_size (c # s) \<noteq> 0" and "\<not> byte c < 0x80"
  shows "list_all plain (take (rune_size (c # s)) (c # s))"
proof -
  have high: "plain b" if "in_bytes lo hi b" "0x80 \<le> lo" for lo hi b
    using that by (auto simp: plain_def in_bytes_def)
  have ifs: "0x80 \<le> (if P then 0xA0 else 0x80 :: nat)" "0x80 \<le> (if P then 0x90 else 0x80 :: nat)" for P
    by simp_all
  have c: "plain c" using assms(2) by (auto simp: plain_def)
  have n0: "0 < (if P then k else 0) \<longleftrightarrow> P" if "0 < k" for P and k :: nat using that by simp
  consider b r where "s = b # r" "rune_size (c # s) = 2" "plain b"
    | b d r where "s = b # d # r" "rune_size (c # s) = 3" "plain b" "plain d"
    | b d e r where "s = b # d # e # r" "rune_size (c # s) = 4" "plain b" "plain d" "plain e"
  proof (cases rule: rune_size_range [OF assms(1)])
    case 1
    then show thesis using assms(2) by simp
  next
    case 2
    with assms(1) obtain b r where "s = b # r" "in_bytes 0x80 0xBF b"
      by (cases s) (auto simp: rune_size_def n0 split del: if_split)
    with 2 high that(1) show thesis by (simp add: rune_size_def)
  next
    case 3
    with assms(1) obtain b d r lo hi where "s = b # d # r"
        "in_bytes (if byte c = 0xE0 then 0xA0 else 0x80) (if byte c = 0xED then 0x9F else 0xBF) b" "in_bytes 0x80 0xBF d"
      by (auto simp: rune_size_def Let_def n0 split: list.splits split del: if_split)
    with 3 high ifs that(2) show thesis by (simp add: rune_size_def Let_def split del: if_split)
  next
    case 4
    with assms(1) obtain b d e r lo hi where "s = b # d # e # r"
        "in_bytes (if byte c = 0xF0 then 0x90 else 0x80) (if byte c = 0xF4 then 0x8F else 0xBF) b"
        "in_bytes 0x80 0xBF d" "in_bytes 0x80 0xBF e"
      by (auto simp: rune_size_def Let_def n0 split: list.splits split del: if_split)
    with 4 high ifs that(3) show thesis by (simp add: rune_size_def Let_def split del: if_split)
  qed
  then show ?thesis by cases (simp_all add: c numeral_eq_Suc)
qed

lemma flat_quote_body: "flat stk (quote_body s)"
proof (induction s rule: quote_body.induct)
  case (2 c s)
  let ?n = "rune_size (c # s)"
  have fffd: "flat stk [backslash, CHR ''u'', CHR ''f'', CHR ''f'', CHR ''f'', CHR ''d'']"
    by (simp add: flat_def is_space_def hex_val_def in_bytes_def)
  consider "byte c < 0x80" | "\<not> byte c < 0x80" "?n = 0" | "\<not> byte c < 0x80" "?n \<noteq> 0" "line_separator (c # s)"
    | "\<not> byte c < 0x80" "?n \<noteq> 0" "\<not> line_separator (c # s)" by blast
  then show ?case
  proof cases
    case 1
    then show ?thesis using 2(1) by (simp add: quote_body.simps(2) flat_append flat_escape_ascii)
  next
    case 2
    then show ?thesis using "2.IH"(2) flat_append [OF fffd] by (simp add: quote_body.simps(2))
  next
    case 3
    then show ?thesis using "2.IH"(3) by (simp add: quote_body.simps(2) flat_append flat_escape_separator)
  next
    case 4
    then have "quote_body (c # s) = take ?n (c # s) @ quote_body (drop (?n - 1) s)"
      by (simp add: quote_body.simps(2))
    moreover have "flat stk (quote_body (drop (?n - 1) s))" using "2.IH"(4) 4 by blast
    ultimately show ?thesis using rune_bytes 4 by (metis flat_append flat_plain)
  qed
qed (simp add: quote_body.simps flat_Nil)


subsection \<open>Compaction\<close>

lemma jaccept_cases:
  assumes "jaccept p" and "scannable p"
  shows "snd p = []" and "fst p \<in> {EndValue, Num1, Num0, Dot0, Exp0}"
proof -
  obtain st stk where p: "p = (st, stk)" by (cases p)
  have sp: "is_space (CHR '' '')" "\<not> is_digit (CHR '' '')" by (simp_all add: is_space_def is_digit_def)
  have ev: "end_value stk (CHR '' '') = Some (EndValue, stk)" "begin_value stk (CHR '' '') = Some (BeginValue, stk)"
    by (cases stk; simp add: sp begin_value_def)+
  have "stk = [] \<and> st \<in> {EndValue, Num1, Num0, Dot0, Exp0}"
    using assms ev sp unfolding p jaccept_def scannable_def
    by (cases st) (auto simp: begin_string_def after_int_def hex_val_def in_bytes_def split: if_split_asm list.splits)
  then show "snd p = []" and "fst p \<in> {EndValue, Num1, Num0, Dot0, Exp0}" by (simp_all add: p)
qed

text \<open>What compaction returns runs like its input, without the white space.\<close>

definition follows :: "jconf \<Rightarrow> string \<Rightarrow> nat \<Rightarrow> bool" where
  "follows p s d \<longleftrightarrow> tight p s \<and> (\<exists>q. jrun p s = Some q \<and> jaccept q) \<and> depth p s \<le> d"

lemma follows_flat:
  assumes "flat (snd p) s" and "fst p = InString" and "follows p t d"
  shows "follows p (s @ t) d"
proof -
  obtain stk where p: "p = (InString, stk)" using assms(2) by (cases p) auto
  have "length stk \<le> d" using assms(3) unfolding follows_def p by (cases t) auto
  with assms(1,3) show ?thesis
    by (auto simp: p follows_def flat_def jrun_append tight_append depth_append)
qed

lemma follows_space:
  assumes "jnext (fst p) (snd p) b = Some q" and "is_space b" and "fst p \<noteq> InString" and "scannable p"
    and "follows q t d"
  shows "follows p t d"
proof (cases t)
  case Nil
  then show ?thesis
    using assms(5) space_settles(1,3) [OF assms(1-4)] by (auto simp: follows_def)
next
  case (Cons c cs)
  have nsp: "\<not> is_space c" using assms(5) space_settles(2) [OF assms(1-4)] by (auto simp: follows_def Cons)
  obtain r where "jnext (fst q) (snd q) c = Some r"
    using assms(5) by (auto simp: follows_def Cons split: option.splits)
  with space_settles(4) [OF assms(1-4) nsp this] show ?thesis
    using assms(5) space_settles(1) [OF assms(1-4)] nsp by (simp add: follows_def Cons)
qed

lemma follows_Cons:
  assumes "jnext (fst p) (snd p) c = Some q" and "is_space c \<longrightarrow> fst p = InString"
    and "length (snd p) \<le> d" and "follows q t d"
  shows "follows p (c # t) d"
  using assms by (simp add: follows_def)

lemma depth_step: "jnext (fst p) (snd p) c = Some q \<Longrightarrow> depth p (c # cs) \<le> d \<Longrightarrow> length (snd p) \<le> d \<and> depth q cs \<le> d"
  by simp

lemma compact_follows:
  assumes "compact_from p s = Some out" and "scannable p" and "depth p s \<le> d"
  shows "follows p out d"
  using assms
proof (induction p s arbitrary: out rule: compact_from.induct)
  case (1 p)
  then show ?case by (cases p) (auto simp: follows_def split: if_split_asm)
next
  case (2 p c cs)
  obtain q where q: "jnext (fst p) (snd p) c = Some q"
    using "2.prems"(1) by (auto split: option.splits)
  have sq: "scannable q" using jnext_scannable [OF q] 2 by simp
  note dq = depth_step [OF q "2.prems"(3)]
  consider (html) "c = CHR ''<'' \<or> c = CHR ''>'' \<or> c = CHR ''&''"
    | (sep) "\<not> (c = CHR ''<'' \<or> c = CHR ''>'' \<or> c = CHR ''&'')" "line_separator (c # cs)"
    | (space) "\<not> (c = CHR ''<'' \<or> c = CHR ''>'' \<or> c = CHR ''&'')" "\<not> line_separator (c # cs)"
        "is_space c" "fst p \<noteq> InString"
    | (copied) "\<not> (c = CHR ''<'' \<or> c = CHR ''>'' \<or> c = CHR ''&'')" "\<not> line_separator (c # cs)"
        "is_space c \<longrightarrow> fst p = InString"
    by blast
  then show ?case
  proof cases
    case html
    then have p: "fst p = InString" "q = p" using escaped_in_string [OF q] 2 by auto
    from html q 2 obtain t where t: "compact_from q cs = Some t" "out = escape_ascii c @ t" by auto
    have "follows q t d" using "2.IH"(1) [OF q html t(1) sq] dq by simp
    then show ?thesis using p t(2) html by (auto intro!: follows_flat flat_escape_ascii)
  next
    case sep
    then obtain b cs' where c: "c = CHR 0xE2" "cs = CHR 0x80 # b # cs'" "b = CHR 0xA8 \<or> b = CHR 0xA9"
      by (cases cs; cases "tl cs") (auto simp: line_separator_def)
    then have p: "fst p = InString" "q = p" using escaped_in_string [OF q] 2 by auto
    then have j: "jrun q (take 2 cs) = Some q" using c by (cases p) auto
    from sep q 2 j obtain t where t: "compact_from q cs' = Some t" "out = escape_separator (c # cs) @ t"
      by (auto simp: c(2))
    have "depth q cs' \<le> d" using dq p c by (cases p) auto
    then have "follows q t d" using "2.IH"(2) [OF q sep j, of t] t c(2) sq by simp
    then show ?thesis using p t(2) by (auto intro!: follows_flat flat_escape_separator)
  next
    case space
    then have "compact_from q cs = Some out" using 2 q by (auto simp: in_token_def)
    then have "follows q out d" using "2.IH"(3) [OF q space(1,2)] space sq dq by (simp add: in_token_def)
    then show ?thesis using follows_space [OF q space(3,4)] 2 by simp
  next
    case copied
    from copied q 2 obtain t where t: "compact_from q cs = Some t" "out = c # t" by (auto simp: in_token_def)
    then have "follows q t d" using "2.IH"(4) [OF q copied(1,2)] copied sq dq by (simp add: in_token_def)
    then show ?thesis using follows_Cons [OF q copied(3)] dq t by simp
  qed
qed


subsection \<open>Values inside an object\<close>

text \<open>A value the decoder can be given as a member: no outside white space, nesting to spare.\<close>

definition member_value :: "string \<Rightarrow> bool" where
  "member_value v \<longleftrightarrow> follows (BeginValue, []) v (max_nesting_depth - 1)"

text \<open>A value the decoder can cut out of an object, whether or not it has nesting to spare.\<close>

definition loose_value :: "string \<Rightarrow> bool" where
  "loose_value v \<longleftrightarrow> (\<exists>d. follows (BeginValue, []) v d)"

lemma member_value_loose: "member_value v \<Longrightarrow> loose_value v"
  by (auto simp: member_value_def loose_value_def)

lemma jrun_scannable: "jrun p s = Some q \<Longrightarrow> scannable p \<Longrightarrow> scannable q"
  by (induction p s rule: jrun.induct) (auto split: option.splits dest: jnext_scannable)

lemma begin_scannable [simp]: "scannable (BeginValue, stk)"
  by (simp add: scannable_def)

lemma jnext_lift:
  assumes "jnext st stk c = Some (st', stk')" and "is_space c \<longrightarrow> st = InString" and "scannable (st, stk)"
    and "length stk' + length ext \<le> max_nesting_depth"
  shows "jnext st (stk @ ext) c = Some (st', stk' @ ext)"
proof -
  have ev: "end_value (stk @ ext) c = Some (st', stk' @ ext)" if "end_value stk c = Some (st', stk')" "\<not> is_space c" for stk
    using that by (cases stk) (auto split: jctx.splits if_split_asm)
  have bv: "begin_value (stk @ ext) c = Some (st', stk' @ ext)" if "begin_value stk c = Some (st', stk')"
    using that assms(4) by (auto simp: begin_value_def push_def split: if_split_asm)
  show ?thesis
  proof (cases st)
    case BeginStringOrEmpty
    then obtain x xs where "stk = x # xs" using assms(3) by (cases stk) (auto simp: scannable_def)
    with BeginStringOrEmpty assms ev [of "ObjVal # xs"] show ?thesis
      by (auto simp: begin_string_def split: if_split_asm)
  next
    case (Lit cs)
    with assms show ?thesis by (auto split: list.splits if_split_asm)
  qed (use assms ev bv in \<open>auto simp: begin_string_def after_int_def split: if_split_asm\<close>)
qed

lemma jrun_lift:
  assumes "tight p s" and "jrun p s = Some q" and "scannable p"
    and "depth p s + length ext \<le> max_nesting_depth"
  shows "jrun (fst p, snd p @ ext) s = Some (fst q, snd q @ ext)"
  using assms
proof (induction p s rule: jrun.induct)
  case (2 p c cs)
  obtain r where r: "jnext (fst p) (snd p) c = Some r" and run: "jrun r cs = Some q"
    using "2.prems"(2) by (auto split: option.splits)
  have "length (snd r) \<le> depth r cs" by (cases cs) auto
  then have "length (snd r) + length ext \<le> max_nesting_depth" "depth r cs + length ext \<le> max_nesting_depth"
    using "2.prems"(4) r by auto
  then have "jnext (fst p) (snd p @ ext) c = Some (fst r, snd r @ ext)"
    and "jrun (fst r, snd r @ ext) cs = Some (fst q, snd q @ ext)"
    using jnext_lift [of "fst p" "snd p" c "fst r" "snd r" ext] "2.IH" [OF r _ run] "2.prems" r jnext_scannable [OF r]
    by auto
  then show ?case by simp
qed simp

lemma member_value_run:
  assumes "member_value v"
  obtains st where "jrun (BeginValue, [x]) v = Some (st, [x])" and "st \<in> {EndValue, Num1, Num0, Dot0, Exp0}"
    and "jrun (BeginValue, []) v = Some (st, [])"
proof -
  obtain q where q: "tight (BeginValue, []) v" "jrun (BeginValue, []) v = Some q" "jaccept q"
    "depth (BeginValue, []) v \<le> max_nesting_depth - 1"
    using assms by (auto simp: member_value_def follows_def)
  have "scannable q" using jrun_scannable [OF q(2)] by simp
  then have "snd q = []" "fst q \<in> {EndValue, Num1, Num0, Dot0, Exp0}" using jaccept_cases [OF q(3)] by auto
  moreover have "jrun (BeginValue, [x]) v = Some (fst q, snd q @ [x])"
    using jrun_lift [OF q(1,2), of "[x]"] q(4) by (simp add: max_nesting_depth_def)
  ultimately show thesis using that [of "fst q"] q(2) by (cases q) auto
qed

lemma value_done_stops:
  assumes "value_done st stk c" and "jnext st stk c = Some q"
  shows "is_space c \<and> st \<noteq> InString"
proof -
  have "is_space c" if "end_value [] c = Some q" using that by (simp split: if_split_asm)
  then show ?thesis
    using assms by (cases st) (simp_all add: value_done_def after_int_def split: if_split_asm)
qed

lemma scan_tight:
  assumes "tight p s" and "jrun p s = Some q" and "value_done (fst q) (snd q) c"
  shows "scan_value p (s @ c # r) = (s, c # r)"
  using assms
proof (induction p s rule: jrun.induct)
  case (2 p d s)
  obtain q' where q': "jnext (fst p) (snd p) d = Some q'" using "2.prems" by (auto split: option.splits)
  moreover have "\<not> value_done (fst p) (snd p) d" using value_done_stops [OF _ q'] "2.prems"(1) by auto
  ultimately show ?case using 2 by auto
qed simp

lemma scan_loose_value:
  assumes "loose_value v" and "c = CHR '','' \<or> c = CHR ''}''"
  shows "scan_value (BeginValue, []) (v @ c # r) = (v, c # r)"
proof -
  obtain q where q: "tight (BeginValue, []) v" "jrun (BeginValue, []) v = Some q" "jaccept q"
    using assms(1) by (auto simp: loose_value_def follows_def)
  have "scannable q" using jrun_scannable [OF q(2)] by simp
  then have "value_done (fst q) (snd q) c"
    using jaccept_cases [OF q(3)] assms(2) by (auto simp: value_done_def is_digit_def)
  with q(1,2) show ?thesis by (rule scan_tight)
qed

lemma loose_value_head:
  assumes "loose_value v"
  obtains c cs where "v = c # cs" and "\<not> is_space c"
  using assms by (cases v) (auto simp: loose_value_def follows_def jaccept_def begin_value_def is_space_def)

text \<open>Quoted strings are member values, and keys.\<close>

lemma jrun_quote: "jrun (BeginValue, stk) (quote s) = Some (EndValue, stk)"
  "jrun (BeginString, stk) (quote s) = Some (EndValue, stk)"
  "jrun (BeginStringOrEmpty, stk) (quote s) = Some (EndValue, stk)"
  using flat_quote_body [of stk s]
  by (simp_all add: quote_def flat_def jrun_append begin_value_def begin_string_def is_space_def)

lemma member_value_quoted:
  assumes "\<And>stk. flat stk s"
  shows "member_value (dquote # s @ [dquote])"
proof -
  have f: "jrun (InString, []) s = Some (InString, [])" "tight (InString, []) s" "depth (InString, []) s = 0"
    using assms [of "[]"] by (simp_all add: flat_def)
  show ?thesis
    by (simp add: f member_value_def follows_def begin_value_def is_space_def jrun_append tight_append
        depth_append [OF f(1)] jaccept_def)
qed

lemma member_value_quote: "member_value (quote s)"
  unfolding quote_def by (rule member_value_quoted) (rule flat_quote_body)

lemma scan_quote: "scan_value (BeginValue, []) (quote s @ c # r) = (quote s, c # r)"
proof (rule scan_tight)
  show "jrun (BeginValue, []) (quote s) = Some (EndValue, [])" by (rule jrun_quote)
  show "tight (BeginValue, []) (quote s)"
    using member_value_quote [of s] by (simp add: member_value_def follows_def)
qed (simp add: value_done_def)

text \<open>Decimal integers.\<close>

lemma tight_digits: "list_all is_digit s \<Longrightarrow> tight (Num1, []) s \<and> jrun (Num1, []) s = Some (Num1, []) \<and> depth (Num1, []) s = 0"
  by (induction s) (auto simp: is_space_def is_digit_def)

lemma member_value_int: "member_value (show_int i)"
proof -
  have nat: "follows p (show_nat n) 0" if "p = (BeginValue, []) \<or> p = (Neg, [])" for p n
  proof -
    obtain c cs where c: "show_nat n = c # cs" "is_digit c" "list_all is_digit cs" "c = CHR ''0'' \<longleftrightarrow> n = 0"
      "n = 0 \<longrightarrow> cs = []" by (rule show_nat_Cons [of n])
    have sp: "\<not> is_space c" "c \<notin> {CHR ''{'', CHR ''['', dquote, CHR ''-'', CHR ''t'', CHR ''f'', CHR ''n''}"
      using c(2) by (auto simp: is_digit_def is_space_def)
    have acc: "jaccept (Num1, [])" "jaccept (Num0, [])"
      by (simp_all add: jaccept_def is_digit_def is_space_def after_int_def)
    show ?thesis
    proof (cases "n = 0")
      case True
      then have "c = CHR ''0''" "cs = []" using c(4,5) by simp_all
      moreover have "jnext (fst p) (snd p) (CHR ''0'') = Some (Num0, [])"
        using that by (elim disjE) (simp_all add: begin_value_def is_space_def)
      ultimately show ?thesis using that c(1) sp(1) acc(2) by (elim disjE) (simp_all add: follows_def)
    next
      case False
      then have "jnext (fst p) (snd p) c = Some (Num1, [])"
        using that c sp by (elim disjE) (simp_all add: begin_value_def)
      with that c(1) sp(1) acc(1) tight_digits [OF c(3)] show ?thesis
        by (elim disjE) (simp_all add: follows_def)
    qed
  qed
  have neg: "jnext BeginValue [] (CHR ''-'') = Some (Neg, [])" "\<not> is_space (CHR ''-'')"
    by (simp_all add: begin_value_def is_space_def)
  have "follows (BeginValue, []) (show_int i) 0"
  proof (cases "i < 0")
    case True
    then show ?thesis using nat [of "(Neg, [])"] follows_Cons [of "(BeginValue, [])" "CHR ''-''" "(Neg, [])" 0] neg
      by (simp add: show_int_def)
  qed (use nat in \<open>simp add: show_int_def\<close>)
  then show ?thesis by (auto simp: member_value_def follows_def)
qed

end
