(* ===== verification/Task_Codec.thy ===== *)
theory Task_Codec
  imports Task Json_Roundtrip
begin

section \<open>Tasks survive the trip through JSON\<close>

text \<open>
  \<open>Unmarshal\<close> inverts \<open>Marshal\<close>: whatever a producer puts into a stream, the consumer decodes to
  the same task, with its payload compacted. The members of the object are decoded one by one
  from the encoded struct; every field's codec is an interpretation of \<open>codec\<close>.
\<close>

subsection \<open>Objects\<close>

definition loose_values :: "(string \<times> string) list \<Rightarrow> bool" where
  "loose_values ms \<longleftrightarrow> ms \<noteq> [] \<and> (\<forall>(k, v)\<in>set ms. loose_value v)"

definition member_values :: "(string \<times> string) list \<Rightarrow> bool" where
  "member_values ms \<longleftrightarrow> ms \<noteq> [] \<and> (\<forall>(k, v)\<in>set ms. member_value v)"

lemma skip_ws_head: "\<not> is_space c \<Longrightarrow> skip_ws (c # cs) = c # cs"
  by simp

lemma quote_head: "quote s = dquote # quote_body s @ [dquote]"
  by (simp add: quote_def)

lemma not_space [simp]: "\<not> is_space dquote" "\<not> is_space (CHR '':'')" "\<not> is_space (CHR '','')"
  "\<not> is_space (CHR ''{'')" "\<not> is_space (CHR ''}'')"
  by (simp_all add: is_space_def)

lemma member_values_loose: "member_values ms \<Longrightarrow> loose_values ms"
  by (auto simp: member_values_def loose_values_def intro: member_value_loose)

lemma skip_loose_value: "loose_value v \<Longrightarrow> skip_ws (v @ r) = v @ r"
  by (auto elim: loose_value_head)

lemma members_step:
  assumes "loose_value v" and "c = CHR '','' \<or> c = CHR ''}''"
  shows "members (quote k @ CHR '':'' # v @ c # r) =
    (if c = CHR ''}'' then Some [(quote k, v)] else map_option (\<lambda>ms. (quote k, v) # ms) (members r))"
proof -
  let ?s = "quote k @ CHR '':'' # v @ c # r"
  have s: "skip_ws ?s = ?s" "?s \<noteq> []" "hd ?s \<noteq> CHR ''}''" by (simp_all add: quote_head)
  have c: "\<not> is_space c" using assms(2) by auto
  show ?thesis
    using assms(2) c
    by (subst members.simps)
       (auto simp: Let_def s scan_quote skip_loose_value [OF assms(1)] scan_loose_value [OF assms(1)])
qed

lemma members_join:
  "loose_values ms \<Longrightarrow> members (join_members ms @ ''}'') = Some (map (\<lambda>(k, v). (quote k, v)) ms)"
proof (induction ms rule: join_members.induct)
  case (2 k v)
  then show ?case using members_step [of v "CHR ''}''" k "[]"] by (simp add: loose_values_def)
next
  case (3 k v m ms)
  then show ?case
    using members_step [of v "CHR '',''" k "join_members (m # ms) @ ''}''"] by (simp add: loose_values_def)
qed (simp add: loose_values_def)

lemma jnext_member_end:
  assumes "st \<in> {EndValue, Num1, Num0, Dot0, Exp0}"
  shows "jnext st [ObjVal] (CHR '','') = Some (BeginString, [ObjKey])"
    and "jnext st [ObjVal] (CHR ''}'') = Some (EndValue, [])"
  using assms by (auto simp: after_int_def is_digit_def)

lemma jrun_join:
  "member_values ms \<Longrightarrow> st = BeginString \<or> st = BeginStringOrEmpty \<Longrightarrow>
   jrun (st, [ObjKey]) (join_members ms @ ''}'') = Some (EndValue, [])"
proof (induction ms arbitrary: st rule: join_members.induct)
  case (2 k v)
  then obtain st' where "jrun (BeginValue, [ObjVal]) v = Some (st', [ObjVal])"
    "st' \<in> {EndValue, Num1, Num0, Dot0, Exp0}"
    by (auto simp: member_values_def intro: member_value_run [of v ObjVal])
  with 2 jnext_member_end(2) [of st'] show ?case
    by (auto simp: jrun_append jrun_quote)
next
  case (3 k v m ms)
  then obtain st' where "jrun (BeginValue, [ObjVal]) v = Some (st', [ObjVal])"
    "st' \<in> {EndValue, Num1, Num0, Dot0, Exp0}"
    by (auto simp: member_values_def intro: member_value_run [of v ObjVal])
  moreover have "jrun (BeginString, [ObjKey]) (join_members (m # ms) @ ''}'') = Some (EndValue, [])"
    using 3 by (auto simp: member_values_def)
  ultimately show ?case
    using 3(3) jnext_member_end(1) [of st'] by (auto simp: jrun_append jrun_quote)
qed (simp add: member_values_def)

lemma parse_json_object:
  assumes "member_values ms"
  shows "parse_document (json_object ms) = Some (DObject (map (\<lambda>(k, v). (quote k, v)) ms))"
proof -
  have "jnext BeginValue [] (CHR ''{'') = Some (BeginStringOrEmpty, [ObjKey])"
    by (simp add: begin_value_def push_def max_nesting_depth_def)
  then have "jrun (BeginValue, []) (json_object ms) = Some (EndValue, [])"
    using jrun_join [OF assms] by (simp add: json_object_def)
  then have "json_valid (json_object ms)" by (simp add: json_valid_def jaccept_def is_space_def)
  then show ?thesis
    using members_join [OF member_values_loose [OF assms]] by (simp add: parse_document_def json_object_def)
qed

lemma parse_json_object_only:
  assumes "loose_values ms" and "parse_document (json_object ms) = Some d"
  shows "d = DObject (map (\<lambda>(k, v). (quote k, v)) ms)"
  using assms(2) members_join [OF assms(1)] by (simp add: parse_document_def json_object_def split: if_splits)

subsection \<open>The codecs of the fields\<close>

interpretation string_codec: codec "\<lambda>s. Some (quote s)" unquote valid_utf8 id
  by unfold_locales (simp add: unquote_quote)

lemma parse_show_int64: "parse_int64 (show_int64 w) = Some w"
proof -
  have r: "- (2 ^ 63) \<le> sint w" "sint w < 2 ^ 63" using sint64_range by auto
  have d: "list_all is_digit (show_nat n)" "show_nat n \<noteq> []" "hd (show_nat n) \<noteq> CHR ''-''" for n
    using show_nat_digits [of n] by (cases "show_nat n"; auto simp: is_digit_def)+
  show ?thesis
    using r d by (auto simp: parse_int64_def show_int64_def show_int_def Let_def)
qed

interpretation int64_codec: codec "\<lambda>w. Some (show_int64 w)" parse_int64 "\<lambda>_. True" id
  by unfold_locales (simp add: parse_show_int64)

interpretation time_codec: codec marshal_time "unmarshal_time old" json_time id for old
  by unfold_locales (simp add: unmarshal_marshal_time)

lemma member_value_int64: "member_value (show_int64 w)"
  by (simp add: show_int64_def member_value_int)

lemma plain_chars: "is_digit c \<Longrightarrow> plain c"
  by (auto simp: is_digit_def plain_def)

lemma plain_digits: "list_all is_digit s \<Longrightarrow> list_all plain s"
  by (auto simp: list_all_iff plain_chars)

lemma plain_pad [simp]: "list_all plain (pad_nat w n)"
  by (simp add: plain_digits)

lemma plain_marks [simp]: "plain (CHR ''-'')" "plain (CHR ''+'')" "plain (CHR '':'')" "plain (CHR ''T'')"
  "plain (CHR ''Z'')" "plain (CHR ''.'')"
  by (simp_all add: plain_def)

lemma plain_show_time: "list_all plain (show_time t)"
  by (auto simp: show_time_def show_zone_def show_fraction_def Let_def intro!: plain_digits digits_trim_zeros)

lemma member_value_time: "marshal_time t = Some c \<Longrightarrow> member_value c"
  by (auto simp: marshal_time_def split: if_split_asm intro!: member_value_quoted flat_plain plain_show_time)

lemma quote_not_null: "quote s \<noteq> ''null''"
  by (simp add: quote_def)

lemma show_int64_not_null: "show_int64 w \<noteq> ''null''"
  using parse_show_int64 [of w] by (auto simp: parse_int64_def Let_def is_digit_def)

subsection \<open>Decoding the members of an encoded task\<close>

lemma decode_quote: "valid_utf8 s \<Longrightarrow> decode_string old (quote s) = Some s"
  by (simp add: decode_string_def quote_not_null unquote_quote)

lemma decode_show_int64: "decode_int old (show_int64 w) = Some w"
  by (simp add: decode_int_def show_int64_not_null parse_show_int64)

lemma field_names: "valid_utf8 ''id'' \<and> find_field ''id'' = Some FID"
  "valid_utf8 ''type'' \<and> find_field ''type'' = Some FType"
  "valid_utf8 ''payload'' \<and> find_field ''payload'' = Some FPayload"
  "valid_utf8 ''created_at'' \<and> find_field ''created_at'' = Some FCreatedAt"
  "valid_utf8 ''max_retries'' \<and> find_field ''max_retries'' = Some FMaxRetries"
  "valid_utf8 ''current_retries'' \<and> find_field ''current_retries'' = Some FCurrentRetries"
  "valid_utf8 ''error'' \<and> find_field ''error'' = Some FError"
  "valid_utf8 ''idempotency_key'' \<and> find_field ''idempotency_key'' = Some FIdempotencyKey"
  "valid_utf8 ''priority'' \<and> find_field ''priority'' = Some FPriority"
  "valid_utf8 ''timeout'' \<and> find_field ''timeout'' = Some FTimeout"
  by (code_simp)+

definition quoted_members :: "(string \<times> string) list \<Rightarrow> (string \<times> string) list" where
  "quoted_members ms = map (\<lambda>(k, v). (quote k, v)) ms"

lemma decode_member:
  assumes "valid_utf8 k \<and> find_field k = Some f"
  shows "decode_members (quoted_members ((k, raw) # ms)) t =
    (case decode_field f raw t of None \<Rightarrow> None | Some t' \<Rightarrow> decode_members (quoted_members ms) t')"
  using assms unfolding quoted_members_def by (simp add: unquote_quote)

lemma decode_members_append:
  "decode_members (quoted_members (xs @ ys)) t =
    (case decode_members (quoted_members xs) t of None \<Rightarrow> None | Some t' \<Rightarrow> decode_members (quoted_members ys) t')"
  unfolding quoted_members_def
  by (induction "map (\<lambda>(k, v). (quote k, v)) xs" t arbitrary: xs rule: decode_members.induct)
     (auto simp: Cons_eq_map_conv split: option.splits)

lemma decode_Nil [simp]: "decode_members (quoted_members []) t = Some t"
  by (simp add: quoted_members_def)

lemmas decode_steps = field_names [THEN decode_member]

text \<open>The tasks that JSON can carry, and what comes back.\<close>

definition json_task :: "task \<Rightarrow> bool" where
  "json_task t \<longleftrightarrow> valid_utf8 (ID t) \<and> valid_utf8 (Type t) \<and> valid_utf8 (Error t) \<and>
     valid_utf8 (IdempotencyKey t) \<and> valid_utf8 (Priority t) \<and> json_time (CreatedAt t) \<and>
     (case Payload t of None \<Rightarrow> True
      | Some b \<Rightarrow> compact b \<noteq> None \<and> depth (BeginValue, []) b < max_nesting_depth)"

definition normal_task :: "task \<Rightarrow> task" where
  "normal_task t = t\<lparr>Payload := marshal_payload (Payload t)\<rparr>"

lemma decode_omitempty:
  "valid_utf8 s \<Longrightarrow> Error t = [] \<Longrightarrow> decode_members (quoted_members (omitempty ''error'' s)) t = Some (t\<lparr>Error := s\<rparr>)"
  "valid_utf8 s \<Longrightarrow> IdempotencyKey t = [] \<Longrightarrow>
     decode_members (quoted_members (omitempty ''idempotency_key'' s)) t = Some (t\<lparr>IdempotencyKey := s\<rparr>)"
  "valid_utf8 s \<Longrightarrow> Priority t = [] \<Longrightarrow>
     decode_members (quoted_members (omitempty ''priority'' s)) t = Some (t\<lparr>Priority := s\<rparr>)"
  by (cases t; simp add: omitempty_def decode_steps decode_field_def decode_quote)+

lemma decode_timeout:
  "Timeout t = None \<Longrightarrow> decode_members (quoted_members (case d of None \<Rightarrow> [] | Some d \<Rightarrow> [(''timeout'', show_int64 d)])) t =
     Some (t\<lparr>Timeout := d\<rparr>)"
  by (cases t; cases d) (simp_all add: decode_steps decode_field_def show_int64_not_null parse_show_int64)

lemma decode_task_members:
  assumes "json_task t" and "marshal_payload (Payload t) = Some p" and "marshal_time (CreatedAt t) = Some c"
  shows "decode_members (quoted_members (task_members t p c)) zero_task = Some (normal_task t)"
proof -
  have "unmarshal_time old c = Some (CreatedAt t)" for old
    using time_codec.decode_encoded [OF _ assms(3), of old] assms(1) by (simp add: json_task_def)
  then show ?thesis
    using assms(1,2)
    by (cases t)
       (simp add: task_members_def decode_members_append decode_steps decode_field_def decode_quote
         decode_show_int64 decode_omitempty decode_timeout json_task_def zero_task_def normal_task_def)
qed

lemma member_values_task:
  assumes "member_value p" and "member_value c"
  shows "member_values (task_members t p c)"
  using assms
  by (auto simp: task_members_def member_values_def omitempty_def member_value_quote member_value_int64
      split: if_split_asm option.splits)

lemma marshal_payload_member:
  assumes "json_task t"
  obtains p where "marshal_payload (Payload t) = Some p" and "member_value p"
proof (cases "Payload t")
  case None
  have "follows (BeginValue, []) ''null'' 0"
    by (simp add: follows_def begin_value_def is_space_def is_digit_def jaccept_def)
  then show thesis using that None by (auto simp: marshal_payload_def member_value_def follows_def)
next
  case (Some b)
  with assms obtain p where p: "compact b = Some p" and d: "depth (BeginValue, []) b \<le> max_nesting_depth - 1"
    by (auto simp: json_task_def)
  have "follows (BeginValue, []) p (max_nesting_depth - 1)"
    using compact_follows [OF p [unfolded compact_def] _ d] by simp
  then show thesis using that Some p by (simp add: marshal_payload_def member_value_def)
qed

lemma unmarshal_marshal:
  assumes "json_task t"
  shows "\<exists>s. marshal t = Inr s \<and> unmarshal s = Inr (normal_task t)"
proof -
  obtain p where p: "marshal_payload (Payload t) = Some p" "member_value p"
    using assms by (rule marshal_payload_member)
  obtain c where c: "marshal_time (CreatedAt t) = Some c"
    using time_codec.encode_total [of "CreatedAt t"] assms by (auto simp: json_task_def)
  have "parse_document (json_object (task_members t p c)) = Some (DObject (quoted_members (task_members t p c)))"
    unfolding quoted_members_def by (intro parse_json_object member_values_task p member_value_time [OF c])
  then have "unmarshal (json_object (task_members t p c)) = Inr (normal_task t)"
    by (simp add: unmarshal_def decode_task_members [OF assms p(1) c])
  then show ?thesis by (simp add: marshal_def p c)
qed

text \<open>
  The retry counters survive even where the rest does not: strings that are not valid UTF-8 come
  back with replacement characters, and a payload nested to the limit cannot be decoded inside the
  task; but whatever is decoded from the encoding of a task has its counters.
\<close>

lemma decode_field_counters:
  assumes "decode_field f raw t = Some u"
  shows "(f = FMaxRetries \<or> MaxRetries u = MaxRetries t) \<and> (f = FCurrentRetries \<or> CurrentRetries u = CurrentRetries t)"
  using assms by (cases f) (auto simp: decode_field_def split: if_splits)

lemma decode_omitempty_counters:
  assumes "decode_members (quoted_members (omitempty k s)) t = Some u" and "k \<in> {''error'', ''idempotency_key'', ''priority''}"
  shows "MaxRetries u = MaxRetries t \<and> CurrentRetries u = CurrentRetries t"
  using assms by (auto simp: omitempty_def decode_steps split: if_splits option.splits dest: decode_field_counters)

lemma decode_task_counters:
  assumes "decode_members (quoted_members (task_members t p c)) zero_task = Some u"
  shows "MaxRetries u = MaxRetries t \<and> CurrentRetries u = CurrentRetries t"
  using assms
  by (auto simp: task_members_def decode_members_append decode_steps decode_show_int64 decode_field_def [of FMaxRetries]
      decode_field_def [of FCurrentRetries] split: option.splits
      dest!: decode_omitempty_counters decode_field_counters)

lemma marshal_payload_loose:
  assumes "marshal_payload b = Some p"
  shows "loose_value p"
proof (cases b)
  case None
  have "follows (BeginValue, []) ''null'' 0"
    by (simp add: follows_def begin_value_def is_space_def is_digit_def jaccept_def)
  then show ?thesis using assms None by (auto simp: marshal_payload_def loose_value_def)
next
  case (Some x)
  then show ?thesis
    using assms compact_follows [of "(BeginValue, [])" x p "depth (BeginValue, []) x"]
    by (auto simp: marshal_payload_def compact_def loose_value_def)
qed

lemma decoded_counters:
  assumes "marshal t = Inr s" and "unmarshal s = Inr u"
  shows "MaxRetries u = MaxRetries t \<and> CurrentRetries u = CurrentRetries t"
proof -
  obtain p c where pc: "marshal_payload (Payload t) = Some p" "marshal_time (CreatedAt t) = Some c"
    and s: "s = json_object (task_members t p c)"
    using assms(1) by (auto simp: marshal_def split: option.splits)
  have "loose_values (task_members t p c)"
    using marshal_payload_loose [OF pc(1)] member_value_time [OF pc(2)]
    by (auto simp: task_members_def loose_values_def omitempty_def member_value_quote member_value_int64 member_value_loose
        split: if_split_asm option.splits)
  with assms(2) have "decode_members (quoted_members (task_members t p c)) zero_task = Some u"
    unfolding s by (auto simp: unmarshal_def quoted_members_def split: option.splits document.splits dest!: parse_json_object_only)
  then show ?thesis by (rule decode_task_counters)
qed

text \<open>The pair as fallible functions, for the contract.\<close>

definition marshal_opt :: "task \<Rightarrow> string option" where
  "marshal_opt t = (case marshal t of Inl _ \<Rightarrow> None | Inr s \<Rightarrow> Some s)"

definition unmarshal_opt :: "string \<Rightarrow> task option" where
  "unmarshal_opt s = (case unmarshal s of Inl _ \<Rightarrow> None | Inr t \<Rightarrow> Some t)"

interpretation task_codec: codec marshal_opt unmarshal_opt json_task normal_task
  by unfold_locales (use unmarshal_marshal in \<open>fastforce simp: marshal_opt_def unmarshal_opt_def\<close>)

subsection \<open>Properties\<close>

text \<open>
  C18: Round trip. A task whose strings are valid UTF-8, whose time JSON can write and whose payload
  is a JSON value (of less than the decoder's nesting limit) is encoded, and decoding the encoding
  gives the task back, with every field as it was and the payload compacted (a nil payload
  becomes null).
\<close>

theorem task_roundtrip:
  assumes "json_task t"
  shows "\<exists>s. marshal t = Inr s \<and> unmarshal s = Inr (t\<lparr>Payload := marshal_payload (Payload t)\<rparr>)"
  using unmarshal_marshal [OF assms] by (simp add: normal_task_def)

definition sample_task :: task where
  "sample_task = zero_task\<lparr>ID := ''t1'', Type := ''email'', Payload := Some ''[1, 2]'', MaxRetries := 1,
     IdempotencyKey := ''k'', Timeout := Some 5\<rparr>"

lemma json_zero_time: "json_time zero_time"
  by (simp add: json_time_def valid_time_def zero_time_def days_in_def)

lemma sample_payloads: "compact ''[1, 2]'' = Some ''[1,2]'' \<and> depth (BeginValue, []) ''[1, 2]'' = 1"
  "compact ''[1,2]'' = Some ''[1,2]'' \<and> depth (BeginValue, []) ''[1,2]'' = 1"
  by code_simp+

lemma sample_strings: "valid_utf8 [] \<and> valid_utf8 ''t1'' \<and> valid_utf8 ''email'' \<and> valid_utf8 ''k''"
  by code_simp

lemma json_sample_task: "json_task sample_task" "json_task (sample_task\<lparr>Payload := Some ''[1,2]''\<rparr>)"
  using sample_strings sample_payloads json_zero_time
  by (simp_all add: json_task_def sample_task_def zero_task_def max_nesting_depth_def)

theorem task_roundtrip_witness:
  "json_task sample_task \<and>
   (\<exists>s. marshal sample_task = Inr s \<and> unmarshal s = Inr (sample_task\<lparr>Payload := Some ''[1,2]''\<rparr>))"
proof -
  have "marshal_payload (Payload sample_task) = Some ''[1,2]''"
    using sample_payloads by (simp add: marshal_payload_def sample_task_def)
  with task_roundtrip [OF json_sample_task(1)] json_sample_task show ?thesis by simp
qed

lemma marshal_same_payload:
  assumes "marshal_payload p = marshal_payload (Payload t)"
  shows "marshal (t\<lparr>Payload := p\<rparr>) = marshal t"
proof -
  have "task_members (t\<lparr>Payload := p\<rparr>) = task_members t" by (simp add: fun_eq_iff task_members_def)
  with assms show ?thesis by (auto simp: marshal_def split: option.split)
qed

text \<open>
  Encoding is faithful. Two such tasks with the same encoding are equal up to the white space
  and HTML escapes of their payloads.
\<close>

lemma marshal_injective:
  assumes "json_task t" and "json_task u" and "marshal t = marshal u"
  shows "t\<lparr>Payload := marshal_payload (Payload t)\<rparr> = u\<lparr>Payload := marshal_payload (Payload u)\<rparr>"
  using task_codec.encode_injective [of t u] assms by (simp add: marshal_opt_def normal_task_def)

text \<open>
  What cannot be encoded. Marshal fails exactly when the payload is not a JSON document or the
  time has a year outside 0..9999 or a zone of a day or more; so an Add with such a task is an
  error before anything reaches Redis.
\<close>

lemma marshal_error_iff:
  "(\<exists>e. marshal t = Inl e) \<longleftrightarrow>
     (\<exists>b. Payload t = Some b \<and> compact b = None) \<or>
     year (CreatedAt t) < 0 \<or> 9999 < year (CreatedAt t) \<or> 24 * 3600 \<le> \<bar>offset (CreatedAt t)\<bar>"
proof -
  have "nat \<bar>offset (CreatedAt t)\<bar> div 3600 < 24 \<longleftrightarrow> \<bar>offset (CreatedAt t)\<bar> < 24 * 3600"
    by (simp add: div_less_iff_less_mult nat_less_iff)
  then show ?thesis
    by (auto simp: marshal_def marshal_payload_def marshal_time_def split: option.split)
qed

end
