(* ===== verification/Test_Doubles.thy ===== *)
theory Test_Doubles
  imports Consumer Task_Codec
begin

section \<open>The test doubles of the consumer's unit tests\<close>

text \<open>
  \<open>consumer/consumer_test.go\<close> runs the consumer on mocks that answer every call with a
  configured result; their recording of the calls is what the spies of \<open>Interfaces\<close> do. They are
  the concrete collaborators on which the properties' witnesses run. The mocks keep no state
  that their answers depend on, so the outside state is \<open>unit\<close>.
\<close>

definition mock_store :: "error option \<Rightarrow> error option \<Rightarrow> error option \<Rightarrow> unit stream_store" where
  "mock_store groupErr addErr ackErr =
     \<lparr>store_Add = (\<lambda>ctx stream t. State_Monad.return
        (case addErr of Some e \<Rightarrow> Inl e | None \<Rightarrow> Inr (''msg-'' @ ID t))),
      store_ReadGroup = (\<lambda>ctx stream grp consumer count block. State_Monad.return (Inr [])),
      store_Ack = (\<lambda>ctx stream grp msgID. State_Monad.return ackErr),
      store_CreateGroup = (\<lambda>ctx stream grp. State_Monad.return groupErr),
      store_Range = (\<lambda>ctx stream start stop count. State_Monad.return (Inr [])),
      store_Delete = (\<lambda>ctx stream msgIDs. State_Monad.return None)\<rparr>"

definition mock_publisher :: "error option \<Rightarrow> unit event_publisher" where
  "mock_publisher publishErr ctx e = State_Monad.return publishErr"

definition mock_processor :: "error option \<Rightarrow> unit task_processor" where
  "mock_processor processErr ctx t = State_Monad.return (t, Returned processErr)"

definition panicking_processor :: "unit task_processor" where
  "panicking_processor ctx t = State_Monad.return (t, Panicked)"

definition mock_checker :: "error + bool \<Rightarrow> unit idempotency_checker" where
  "mock_checker result ctx key = State_Monad.return result"

definition mock_runtime :: "unit runtime" where
  "mock_runtime = \<lparr>rt_inc = (\<lambda>m. State_Monad.return ()), rt_observe = (\<lambda>m d. State_Monad.return ()),
     rt_now = State_Monad.return 0\<rparr>"

definition new_test_consumer :: "unit stream_store \<Rightarrow> unit event_publisher \<Rightarrow> unit task_processor \<Rightarrow> unit consumer" where
  "new_test_consumer store publisher processor =
     new_consumer store publisher processor ''test-stream'' ''test-group'' ''test-consumer'' 1 10
       (word_of_int second) ''test-dlq'' 3"

definition text_msg :: "string \<Rightarrow> string \<Rightarrow> stream_message" where
  "text_msg msgID payload = \<lparr>MsgID = msgID, Values = [''payload'' \<mapsto> GoString payload]\<rparr>"

definition make_stream_msg :: "string \<Rightarrow> task \<Rightarrow> stream_message" where
  "make_stream_msg msgID t = text_msg msgID (case marshal t of Inr s \<Rightarrow> s | Inl _ \<Rightarrow> [])"

lemmas mock_defs = mock_store_def mock_publisher_def mock_processor_def panicking_processor_def
  mock_checker_def mock_runtime_def new_test_consumer_def new_consumer_def with_idempotency_def

lemmas handler_defs = handler_calls_def handler_outcome_def process_message_def process_task_def
  handle_task_failure_def is_duplicate_def acknowledge_def publish_event_def process_ctx_def worker_id_def spy_consumer_def run_spy run_unspied Let_def

text \<open>Two decoded payloads: the zero task, and one with a retry left and an idempotency key.\<close>

definition null_msg :: stream_message where
  "null_msg = text_msg ''1-0'' ''null''"

definition retry_payload :: string where
  "retry_payload = [CHR ''{'', dquote] @ ''max_retries'' @ [dquote] @ '':1}''"

definition retry_msg :: stream_message where
  "retry_msg = text_msg ''2-0'' retry_payload"

lemma payload_string_text_msg [simp]: "payload_string (text_msg m p) = Some p"
  by (simp add: payload_string_def text_msg_def)

lemma MsgID_text_msg [simp]: "MsgID (text_msg m p) = m"
  by (simp add: text_msg_def)

lemma unmarshal_null: "unmarshal ''null'' = Inr zero_task"
  by code_simp

lemma unmarshal_retry: "unmarshal retry_payload = Inr (zero_task\<lparr>MaxRetries := 1\<rparr>)"
  by code_simp

lemma zero_task_simps [simp]:
  "ID zero_task = []" "Type zero_task = []" "MaxRetries zero_task = 0" "CurrentRetries zero_task = 0"
  "IdempotencyKey zero_task = []" "Timeout zero_task = None" "Error zero_task = []" "Priority zero_task = []"
  by (simp_all add: zero_task_def)

lemma show_worker_1: "show_int 1 = ''1''"
  by code_simp

lemma decoded_null: "decoded null_msg = Some zero_task"
  by (simp add: decoded_def null_msg_def unmarshal_null)

lemma decoded_retry: "decoded retry_msg = Some (zero_task\<lparr>MaxRetries := 1\<rparr>)"
  by (simp add: decoded_def retry_msg_def unmarshal_retry)

text \<open>A message whose payload is the encoding of a task decodes to the task, in normal form.\<close>

lemma decoded_make_stream_msg: "json_task t \<Longrightarrow> decoded (make_stream_msg m t) = Some (normal_task t)"
  using unmarshal_marshal [of t] by (auto simp: decoded_def make_stream_msg_def)

end
