(* ===== verification/Consumer_Correct.thy ===== *)
theory Consumer_Correct
  imports Consumer Test_Doubles
begin

section \<open>What the message handler guarantees\<close>

text \<open>
  The properties of \<open>processMessage\<close> for arbitrary collaborators: each is read off the traces of
  the specification.
\<close>

lemma message_trace_elim [consumes 1, case_names Unreadable Duplicate Panicking Completed Failed]:
  assumes "message_trace c ctx w msg tr ft"
  obtains
    r where "decoded msg = None" "ft = Unreadable"
      "tr = [CAck Background (c_stream c) (c_group c) (MsgID msg) r]"
  | t g r where "decoded msg = Some t" "gate_trace (has_checker c) ctx t g True" "ft = Duplicate"
      "tr = g @ [CInc TasksDuplicateTotal, CAck Background (c_stream c) (c_group c) (MsgID msg) r]"
  | t g r1 t' where "decoded msg = Some t" "gate_trace (has_checker c) ctx t g False" "ft = Panicking"
      "tr = g @ [CPublish ctx \<lparr>EType = ''Processing'', TaskID = ID t, WorkerID = worker_id c w\<rparr> r1,
         CProcess (process_ctx ctx t) t (t', Panicked)]"
  | t g r1 r2 r3 t' d where "decoded msg = Some t" "gate_trace (has_checker c) ctx t g False" "ft = Completed"
      "tr = g @ [CPublish ctx \<lparr>EType = ''Processing'', TaskID = ID t, WorkerID = worker_id c w\<rparr> r1,
         CProcess (process_ctx ctx t) t (t', Returned None),
         CObserve (TaskDurationSeconds (Type t')) d,
         CInc (TasksProcessedTotal (Type t') ''success''),
         CPublish ctx \<lparr>EType = ''Completed'', TaskID = ID t', WorkerID = worker_id c w\<rparr> r2,
         CAck Background (c_stream c) (c_group c) (MsgID msg) r3]"
  | t g r1 r2 t' d e f where "decoded msg = Some t" "gate_trace (has_checker c) ctx t g False"
      "failure_trace c Background t' (MsgID msg) e (worker_id c w) f ft"
      "tr = g @ [CPublish ctx \<lparr>EType = ''Processing'', TaskID = ID t, WorkerID = worker_id c w\<rparr> r1,
         CProcess (process_ctx ctx t) t (t', Returned (Some e)),
         CObserve (TaskDurationSeconds (Type t')) d,
         CInc (TasksProcessedTotal (Type t') ''error''),
         CInc (TasksFailedTotal (Type t')),
         CPublish ctx \<lparr>EType = ''Failed'', TaskID = ID t', WorkerID = worker_id c w\<rparr> r2] @ f"
  using assms
proof (cases rule: message_trace.cases)
  case (processed t g tr')
  from processed(4) show ?thesis
    by (cases rule: task_trace.cases) (use processed that in auto)
qed (use that in auto)

text \<open>Consumers on the test doubles, with a processor that returns \<open>e\<close>, for the witnesses.\<close>

definition doubles_consumer :: "error option \<Rightarrow> error option \<Rightarrow> unit consumer" where
  "doubles_consumer addErr e =
     new_test_consumer (mock_store None addErr None) (mock_publisher None) (mock_processor e)"

lemma calls_completed:
  "handler_calls mock_runtime (doubles_consumer None None) Background 1 null_msg () =
     [CPublish Background \<lparr>EType = ''Processing'', TaskID = [], WorkerID = ''test-consumer-1''\<rparr> None,
      CProcess Background zero_task (zero_task, Returned None), CObserve (TaskDurationSeconds []) 0,
      CInc (TasksProcessedTotal [] ''success''),
      CPublish Background \<lparr>EType = ''Completed'', TaskID = [], WorkerID = ''test-consumer-1''\<rparr> None,
      CAck Background ''test-stream'' ''test-group'' ''1-0'' None]"
  by (simp add: handler_defs mock_defs doubles_consumer_def null_msg_def unmarshal_null show_worker_1)

lemma calls_requeued:
  "handler_calls mock_runtime (doubles_consumer None (Some ''boom'')) Background 1 retry_msg () =
     [CPublish Background \<lparr>EType = ''Processing'', TaskID = [], WorkerID = ''test-consumer-1''\<rparr> None,
      CProcess Background (zero_task\<lparr>MaxRetries := 1\<rparr>) (zero_task\<lparr>MaxRetries := 1\<rparr>, Returned (Some ''boom'')),
      CObserve (TaskDurationSeconds []) 0,
      CInc (TasksProcessedTotal [] ''error''), CInc (TasksFailedTotal []),
      CPublish Background \<lparr>EType = ''Failed'', TaskID = [], WorkerID = ''test-consumer-1''\<rparr> None,
      CAdd Background ''test-stream'' (zero_task\<lparr>MaxRetries := 1, Error := ''boom'', CurrentRetries := 1\<rparr>) (Inr ''msg-''),
      CAck Background ''test-stream'' ''test-group'' ''2-0'' None]"
  by (simp add: handler_defs mock_defs doubles_consumer_def retry_msg_def unmarshal_retry show_worker_1 sless64_def)

text \<open>The gate only ever asks the checker.\<close>

lemma gate_trace_calls:
  assumes "gate_trace en ctx t g dup"
  shows "filter is_ack g = []" and "filter is_add g = []" and "filter is_process g = []"
    and "events_of g = []" and "increments_of g = []"
    and "call \<in> set g \<Longrightarrow> \<exists>r. call = CCheck ctx (IdempotencyKey t) r"
    and "dup \<Longrightarrow> CCheck ctx (IdempotencyKey t) (Inr False) \<in> set g"
  using assms by (auto elim!: gate_trace.cases)

lemma failure_trace_cases [consumes 1, case_names Retry Retry_Failed Dead Dead_Failed]:
  assumes "failure_trace c ctx t m e wid f ft"
  obtains
    newID r where "sless64 (CurrentRetries t) (MaxRetries t)" "ft = Requeued (retried_task t e)"
      "f = [CAdd ctx (c_stream c) (retried_task t e) (Inr newID), CAck ctx (c_stream c) (c_group c) m r]"
  | err where "sless64 (CurrentRetries t) (MaxRetries t)" "ft = RequeueFailed (retried_task t e)"
      "f = [CAdd ctx (c_stream c) (retried_task t e) (Inl err)]"
  | pr newID r where "\<not> sless64 (CurrentRetries t) (MaxRetries t)" "ft = DeadLettered (failed_task t e)"
      "f = [CInc (TasksDLQTotal (Type t)),
         CPublish ctx \<lparr>EType = ''DLQ'', TaskID = ID t, WorkerID = wid\<rparr> pr,
         CAdd ctx (c_dlqStream c) (failed_task t e) (Inr newID),
         CAck ctx (c_stream c) (c_group c) m r]"
  | pr err where "\<not> sless64 (CurrentRetries t) (MaxRetries t)" "ft = DeadLetterFailed (failed_task t e)"
      "f = [CInc (TasksDLQTotal (Type t)),
         CPublish ctx \<lparr>EType = ''DLQ'', TaskID = ID t, WorkerID = wid\<rparr> pr,
         CAdd ctx (c_dlqStream c) (failed_task t e) (Inl err)]"
  using assms by (cases rule: failure_trace.cases) blast+

lemmas trace_elims = message_trace_elim failure_trace_cases

subsection \<open>Refinement\<close>

text \<open>
  C3: The handler refines its specification. For any store, publisher, processor, idempotency
  checker, metrics registry and clock, in any state, the calls one run of processMessage makes
  are one of the traces that the specification message_trace allows for the message, and the run
  ends in a panic exactly for the fate Panicking.
\<close>

theorem handler_refines_spec:
  "\<exists>ft. message_trace c ctx w msg (handler_calls rt c ctx w msg s) ft \<and>
     (handler_outcome rt c ctx w msg s = Crashed \<longleftrightarrow> ft = Panicking)"
  by (rule handler_trace [of c ctx w msg rt s]) (auto simp: outcome_of_def)

text \<open>
  Observing a handler does not change it: run with spied collaborators, processMessage
  returns the same outcome and leaves the collaborators in the same state as without spies, so
  what is proved of its calls holds of the handler the program runs.
\<close>

lemma spying_changes_nothing:
  "map_prod id world (run_state (process_message (spy_runtime rt) (spy_consumer c) ctx w msg)
       \<lparr>calls = tr, world = s\<rparr>) = run_state (process_message rt c ctx w msg) s"
  using mirrors_process_message [unfolded mirrors_def, rule_format, of rt c ctx w msg "\<lparr>calls = tr, world = s\<rparr>"]
  by simp

subsection \<open>Acknowledgement\<close>

text \<open>
  A message is acknowledged at most once, only under its own id and the consumer's group, and
  the acknowledgement is the last call of the handler, after every other effect.
\<close>

lemma ack_once_and_last:
  "filter is_ack (handler_calls rt c ctx w msg s) = [] \<or>
   (\<exists>r. filter is_ack (handler_calls rt c ctx w msg s) = [last (handler_calls rt c ctx w msg s)] \<and>
        last (handler_calls rt c ctx w msg s) = CAck Background (c_stream c) (c_group c) (MsgID msg) r)"
proof (rule handler_trace [of c ctx w msg rt s])
  fix ft assume "message_trace c ctx w msg (handler_calls rt c ctx w msg s) ft"
  then show ?thesis
    by (cases rule: message_trace_elim) (auto simp: gate_trace_calls elim!: failure_trace_cases)
qed

text \<open>
  C1: No silent loss. A message that gets acknowledged is unreadable, or a duplicate by the
  checker's answer, or was processed successfully, or failed and was first written back by an
  Add that succeeded: to the stream with one more retry, or to the dead-letter stream.
\<close>

theorem acked_is_accounted_for:
  assumes "CAck x st g m r \<in> set (handler_calls rt c ctx w msg s)"
  shows "decoded msg = None \<or>
    (\<exists>t. decoded msg = Some t \<and>
      (CCheck ctx (IdempotencyKey t) (Inr False) \<in> set (handler_calls rt c ctx w msg s) \<or>
       (\<exists>t'. CProcess (process_ctx ctx t) t (t', Returned None) \<in> set (handler_calls rt c ctx w msg s)) \<or>
       (\<exists>t' e newID. CProcess (process_ctx ctx t) t (t', Returned (Some e)) \<in> set (handler_calls rt c ctx w msg s) \<and>
          (if sless64 (CurrentRetries t') (MaxRetries t')
           then CAdd Background (c_stream c) (retried_task t' e) (Inr newID) \<in> set (handler_calls rt c ctx w msg s)
           else CAdd Background (c_dlqStream c) (failed_task t' e) (Inr newID) \<in> set (handler_calls rt c ctx w msg s)))))"
proof (rule handler_trace [of c ctx w msg rt s])
  fix ft assume "message_trace c ctx w msg (handler_calls rt c ctx w msg s) ft"
  then show ?thesis
    using assms
    by (cases rule: message_trace_elim) (fastforce dest: gate_trace_calls(6) gate_trace_calls(7) elim!: failure_trace_cases)+
qed

theorem acked_is_accounted_for_witness:
  "let tr = handler_calls mock_runtime (doubles_consumer None (Some ''boom'')) Background 1 retry_msg () in
   CAck Background ''test-stream'' ''test-group'' ''2-0'' None \<in> set tr \<and>
   (decoded retry_msg = None \<or>
    (\<exists>t. decoded retry_msg = Some t \<and>
      (CCheck Background (IdempotencyKey t) (Inr False) \<in> set tr \<or>
       (\<exists>t'. CProcess (process_ctx Background t) t (t', Returned None) \<in> set tr) \<or>
       (\<exists>t' e newID. CProcess (process_ctx Background t) t (t', Returned (Some e)) \<in> set tr \<and>
          (if sless64 (CurrentRetries t') (MaxRetries t')
           then CAdd Background (c_stream (doubles_consumer None (Some ''boom''))) (retried_task t' e) (Inr newID) \<in> set tr
           else CAdd Background (c_dlqStream (doubles_consumer None (Some ''boom''))) (failed_task t' e) (Inr newID) \<in> set tr)))))"
proof -
  have h: "CAck Background ''test-stream'' ''test-group'' ''2-0'' None \<in>
      set (handler_calls mock_runtime (doubles_consumer None (Some ''boom'')) Background 1 retry_msg ())"
    by (simp add: calls_requeued)
  show ?thesis unfolding Let_def by (rule conjI [OF h acked_is_accounted_for [OF h]])
qed

text \<open>
  C20: What stays pending. The handler asks the store for at most one acknowledgement, of this
  message, in the consumer's group and as its last call. No acknowledgement succeeds, so that the
  message stays pending in the group, exactly when the processor panicked, the write-back (re-queue
  or dead letter) failed, or the acknowledgement itself failed, which the code only logs.
\<close>

theorem left_pending_iff:
  "let tr = handler_calls rt c ctx w msg s in
   (filter is_ack tr = [] \<or>
    (\<exists>r. filter is_ack tr = [CAck Background (c_stream c) (c_group c) (MsgID msg) r] \<and>
       last tr = CAck Background (c_stream c) (c_group c) (MsgID msg) r)) \<and>
   (\<not> (\<exists>x st g m. CAck x st g m None \<in> set tr) \<longleftrightarrow>
      handler_outcome rt c ctx w msg s = Crashed \<or>
      (\<exists>x st t e. CAdd x st t (Inl e) \<in> set tr) \<or>
      (\<exists>x st g m e. CAck x st g m (Some e) \<in> set tr))"
proof (rule handler_trace [of c ctx w msg rt s])
  fix ft assume tr: "message_trace c ctx w msg (handler_calls rt c ctx w msg s) ft"
    and oc: "handler_outcome rt c ctx w msg s = outcome_of ft"
  let ?tr = "handler_calls rt c ctx w msg s"
  have acks: "filter is_ack (handler_calls rt c ctx w msg s) = [] \<or>
    (\<exists>r. filter is_ack (handler_calls rt c ctx w msg s) = [CAck Background (c_stream c) (c_group c) (MsgID msg) r] \<and>
       last (handler_calls rt c ctx w msg s) = CAck Background (c_stream c) (c_group c) (MsgID msg) r)"
    using ack_once_and_last [of rt c ctx w msg s] by auto
  have none: "filter is_ack ?tr = [] \<longleftrightarrow> handler_outcome rt c ctx w msg s = Crashed \<or>
     (\<exists>x st t e. CAdd x st t (Inl e) \<in> set (handler_calls rt c ctx w msg s))"
    using tr oc
    by (cases rule: message_trace_elim)
       (auto simp: gate_trace_calls outcome_of_def dest: gate_trace_calls(6) elim!: failure_trace_cases, blast+)
  have in_acks: "CAck x st g m r \<in> set ?tr \<longleftrightarrow> CAck x st g m r \<in> set (filter is_ack ?tr)" for x st g m r
    by simp
  have "\<not> (\<exists>x st g m. CAck x st g m None \<in> set ?tr) \<longleftrightarrow>
      filter is_ack ?tr = [] \<or> (\<exists>x st g m e. CAck x st g m (Some e) \<in> set ?tr)"
    using acks unfolding in_acks by (elim disjE exE conjE) (simp_all del: set_filter, metis not_None_eq)
  with acks none show ?thesis unfolding Let_def by simp
qed

subsection \<open>Retries and dead letters\<close>

lemma adds_on_failure:
  assumes "CProcess x t (t', Returned (Some e)) \<in> set (handler_calls rt c ctx w msg s)"
  shows "\<exists>r. filter is_add (handler_calls rt c ctx w msg s) =
    [if sless64 (CurrentRetries t') (MaxRetries t')
     then CAdd Background (c_stream c) (t'\<lparr>Error := e, CurrentRetries := CurrentRetries t' + 1\<rparr>) r
     else CAdd Background (c_dlqStream c) (t'\<lparr>Error := e\<rparr>) r]"
proof (rule handler_trace [of c ctx w msg rt s])
  fix ft assume "message_trace c ctx w msg (handler_calls rt c ctx w msg s) ft"
  then show ?thesis
    using assms
    by (cases rule: message_trace_elim)
       (auto simp: gate_trace_calls retried_task_def failed_task_def dest: gate_trace_calls(6) elim!: failure_trace_cases)
qed

lemma adds_only_on_failure:
  "filter is_add (handler_calls rt c ctx w msg s) = [] \<or>
   (\<exists>x t t' e. CProcess x t (t', Returned (Some e)) \<in> set (handler_calls rt c ctx w msg s))"
proof (rule handler_trace [of c ctx w msg rt s])
  fix ft assume "message_trace c ctx w msg (handler_calls rt c ctx w msg s) ft"
  then show ?thesis by (cases rule: message_trace_elim) (auto simp: gate_trace_calls)
qed

lemma requeue_bounded:
  assumes "CAdd x (c_stream c) t1 r \<in> set (handler_calls rt c ctx w msg s)"
    and "c_dlqStream c \<noteq> c_stream c"
  shows "sint (CurrentRetries t1) \<le> sint (MaxRetries t1) \<and>
    (\<exists>y t t' e. CProcess y t (t', Returned (Some e)) \<in> set (handler_calls rt c ctx w msg s) \<and>
       MaxRetries t1 = MaxRetries t' \<and> sint (CurrentRetries t1) = sint (CurrentRetries t') + 1)"
proof -
  obtain y t t' e where p: "CProcess y t (t', Returned (Some e)) \<in> set (handler_calls rt c ctx w msg s)"
    using adds_only_on_failure [of rt c ctx w msg s] assms(1) by (force simp: filter_empty_conv)
  obtain r' where eq: "filter is_add (handler_calls rt c ctx w msg s) =
    [if sless64 (CurrentRetries t') (MaxRetries t')
     then CAdd Background (c_stream c) (t'\<lparr>Error := e, CurrentRetries := CurrentRetries t' + 1\<rparr>) r'
     else CAdd Background (c_dlqStream c) (t'\<lparr>Error := e\<rparr>) r']"
    using adds_on_failure [OF p] by blast
  have "CAdd x (c_stream c) t1 r \<in> set (filter is_add (handler_calls rt c ctx w msg s))"
    using assms(1) by simp
  then have less: "sless64 (CurrentRetries t') (MaxRetries t')" and
    t1: "t1 = t'\<lparr>Error := e, CurrentRetries := CurrentRetries t' + 1\<rparr>"
    unfolding eq using assms(2) by (auto split: if_splits)
  with sint64_incr [OF less] have "sint (CurrentRetries t1) = sint (CurrentRetries t') + 1" by simp
  with p t1 less show ?thesis unfolding sless64_def by (intro conjI exI) auto
qed

text \<open>
  C2: The retry decision. When the processor returns an error, the handler adds exactly one
  message, under a context no shutdown cancels: while the task it was left with has retries to
  spend, the task with the error recorded and one more retry counted, to the consumer's stream;
  otherwise the task with the error recorded, its counter unchanged, to the dead-letter stream.
\<close>

theorem failed_task_is_written_back:
  assumes "CProcess x t (t', Returned (Some e)) \<in> set (handler_calls rt c ctx w msg s)"
  shows "\<exists>r. filter is_add (handler_calls rt c ctx w msg s) =
    [if sless64 (CurrentRetries t') (MaxRetries t')
     then CAdd Background (c_stream c) (t'\<lparr>Error := e, CurrentRetries := CurrentRetries t' + 1\<rparr>) r
     else CAdd Background (c_dlqStream c) (t'\<lparr>Error := e\<rparr>) r]"
  using assms by (rule adds_on_failure)

theorem failed_task_is_written_back_witness:
  "let tr = handler_calls mock_runtime (doubles_consumer None (Some ''boom'')) Background 1 retry_msg () in
   CProcess Background (zero_task\<lparr>MaxRetries := 1\<rparr>) (zero_task\<lparr>MaxRetries := 1\<rparr>, Returned (Some ''boom'')) \<in> set tr \<and>
   (\<exists>r. filter is_add tr =
      [CAdd Background ''test-stream'' (zero_task\<lparr>MaxRetries := 1, Error := ''boom'', CurrentRetries := 1\<rparr>) r])"
proof -
  have h: "CProcess Background (zero_task\<lparr>MaxRetries := 1\<rparr>) (zero_task\<lparr>MaxRetries := 1\<rparr>, Returned (Some ''boom'')) \<in>
      set (handler_calls mock_runtime (doubles_consumer None (Some ''boom'')) Background 1 retry_msg ())"
    by (simp add: calls_requeued)
  show ?thesis
    unfolding Let_def using h failed_task_is_written_back [OF h]
    by (simp add: sless64_def doubles_consumer_def mock_defs)
qed

text \<open>
  Nothing is written back otherwise: a message that was unreadable, a duplicate, processed
  successfully, or whose processing panicked leaves every stream as it was.
\<close>

lemma no_add_without_failure:
  "filter is_add (handler_calls rt c ctx w msg s) = [] \<or>
   (\<exists>x t t' e. CProcess x t (t', Returned (Some e)) \<in> set (handler_calls rt c ctx w msg s))"
  by (rule adds_only_on_failure)

text \<open>
  C23: The retry counter never overflows and never passes the limit: for a task written back to
  the consumer's stream, the 64-bit increment is the increment of the integers, and the new
  count is at most MaxRetries (the dead-letter stream being a different stream).
\<close>

theorem retry_counter_bounded:
  assumes "CAdd x (c_stream c) t1 r \<in> set (handler_calls rt c ctx w msg s)"
    and "c_dlqStream c \<noteq> c_stream c"
  shows "sint (CurrentRetries t1) \<le> sint (MaxRetries t1) \<and>
    (\<exists>y t t' e. CProcess y t (t', Returned (Some e)) \<in> set (handler_calls rt c ctx w msg s) \<and>
       MaxRetries t1 = MaxRetries t' \<and> sint (CurrentRetries t1) = sint (CurrentRetries t') + 1)"
  using assms by (rule requeue_bounded)

theorem retry_counter_bounded_witness:
  "let tr = handler_calls mock_runtime (doubles_consumer None (Some ''boom'')) Background 1 retry_msg ();
       t1 = zero_task\<lparr>MaxRetries := 1, Error := ''boom'', CurrentRetries := 1\<rparr> in
   CAdd Background ''test-stream'' t1 (Inr ''msg-'') \<in> set tr \<and> sint (CurrentRetries t1) \<le> sint (MaxRetries t1) \<and>
   (\<exists>y t t' e. CProcess y t (t', Returned (Some e)) \<in> set tr \<and>
       MaxRetries t1 = MaxRetries t' \<and> sint (CurrentRetries t1) = sint (CurrentRetries t') + 1)"
proof -
  let ?c = "doubles_consumer None (Some ''boom'')"
  have stream: "c_stream ?c = ''test-stream''" "c_dlqStream ?c \<noteq> c_stream ?c"
    by (simp_all add: doubles_consumer_def mock_defs)
  have h: "CAdd Background (c_stream ?c) (zero_task\<lparr>MaxRetries := 1, Error := ''boom'', CurrentRetries := 1\<rparr>) (Inr ''msg-'') \<in>
      set (handler_calls mock_runtime ?c Background 1 retry_msg ())"
    unfolding stream(1) by (simp add: calls_requeued)
  show ?thesis
    unfolding Let_def using conjI [OF h retry_counter_bounded [OF h stream(2)]] unfolding stream(1) .
qed

subsection \<open>Events, metrics, contexts\<close>

text \<open>
  C24: The life cycle the dashboard sees. A run that does not come to the processor publishes no
  event. One that does publishes Processing for the decoded task before the processor is called,
  and after it: nothing if it panicked, Completed if it returned nil, Failed if it returned an
  error, followed by DLQ exactly when the task it left has no retry to spend; every event names
  the task and this worker.
\<close>

theorem event_protocol:
  "let tr = handler_calls rt c ctx w msg s;
       ev = (\<lambda>ty t. \<lparr>EType = ty, TaskID = ID t, WorkerID = c_consumer c @ ''-'' @ show_int w\<rparr>) in
   (case filter is_process tr of
      [] \<Rightarrow> events_of tr = []
    | [CProcess x t (t', result)] \<Rightarrow>
        events_of (takeWhile (\<lambda>call. \<not> is_process call) tr) = [ev ''Processing'' t] \<and>
        events_of (dropWhile (\<lambda>call. \<not> is_process call) tr) =
          (case result of
             Panicked \<Rightarrow> []
           | Returned None \<Rightarrow> [ev ''Completed'' t']
           | Returned (Some e) \<Rightarrow>
               ev ''Failed'' t' # (if sless64 (CurrentRetries t') (MaxRetries t') then [] else [ev ''DLQ'' t']))
    | _ \<Rightarrow> False)"
proof (rule handler_trace [of c ctx w msg rt s])
  fix ft assume "message_trace c ctx w msg (handler_calls rt c ctx w msg s) ft"
  moreover have "takeWhile (\<lambda>call. \<not> is_process call) (g @ cs) = g @ takeWhile (\<lambda>call. \<not> is_process call) cs"
    "dropWhile (\<lambda>call. \<not> is_process call) (g @ cs) = dropWhile (\<lambda>call. \<not> is_process call) cs"
    if "gate_trace en ctx t g dup" for en t g dup cs
    using gate_trace_calls(3) [OF that] by (simp_all add: filter_empty_conv takeWhile_append2 dropWhile_append2)
  ultimately show ?thesis
    by (cases rule: message_trace_elim)
       (auto simp: Let_def gate_trace_calls worker_id_def elim!: failure_trace_cases)
qed

text \<open>
  C25: The counters agree with what happened. Per run: a success counter for a processor that
  returned nil; an error counter, the failure counter and, when no retry is left, the
  dead-letter counter for one that returned an error; the duplicate counter alone for a
  skipped duplicate; and nothing else, each under the task's type.
\<close>

theorem metrics_match_fate:
  "\<exists>ft. message_trace c ctx w msg (handler_calls rt c ctx w msg s) ft \<and>
    (case ft of
       Unreadable \<Rightarrow> increments_of (handler_calls rt c ctx w msg s) = []
     | Panicking \<Rightarrow> increments_of (handler_calls rt c ctx w msg s) = []
     | Duplicate \<Rightarrow> increments_of (handler_calls rt c ctx w msg s) = [TasksDuplicateTotal]
     | Completed \<Rightarrow> \<exists>ty. increments_of (handler_calls rt c ctx w msg s) = [TasksProcessedTotal ty ''success'']
     | Requeued t \<Rightarrow> increments_of (handler_calls rt c ctx w msg s) =
         [TasksProcessedTotal (Type t) ''error'', TasksFailedTotal (Type t)]
     | RequeueFailed t \<Rightarrow> increments_of (handler_calls rt c ctx w msg s) =
         [TasksProcessedTotal (Type t) ''error'', TasksFailedTotal (Type t)]
     | DeadLettered t \<Rightarrow> increments_of (handler_calls rt c ctx w msg s) =
         [TasksProcessedTotal (Type t) ''error'', TasksFailedTotal (Type t), TasksDLQTotal (Type t)]
     | DeadLetterFailed t \<Rightarrow> increments_of (handler_calls rt c ctx w msg s) =
         [TasksProcessedTotal (Type t) ''error'', TasksFailedTotal (Type t), TasksDLQTotal (Type t)])"
proof (rule handler_trace [of c ctx w msg rt s])
  fix ft assume tr: "message_trace c ctx w msg (handler_calls rt c ctx w msg s) ft"
  then show ?thesis
    by (intro exI [of _ ft] conjI, assumption, cases rule: message_trace_elim)
       (auto simp: gate_trace_calls retried_task_def failed_task_def elim!: failure_trace_cases)
qed

text \<open>
  A shutdown cannot tear a handler: every store call of the handler runs under
  context.Background(), whatever context the handler was given, and the processor runs under
  the given context, narrowed by the task's own timeout when it has one.
\<close>

lemma store_calls_not_cancellable:
  "list_all (\<lambda>call. store_ctx call \<in> {None, Some Background} \<and>
     (case call of
        CProcess x t r \<Rightarrow>
          decoded msg = Some t \<and> x = (case Timeout t of None \<Rightarrow> ctx | Some d \<Rightarrow> WithTimeout ctx d)
      | _ \<Rightarrow> True)) (handler_calls rt c ctx w msg s)"
proof (rule handler_trace [of c ctx w msg rt s])
  fix ft assume "message_trace c ctx w msg (handler_calls rt c ctx w msg s) ft"
  then show ?thesis
    by (cases rule: message_trace_elim)
       (auto simp: process_ctx_def list_all_iff dest: gate_trace_calls(6) elim!: failure_trace_cases)
qed

text \<open>
  A delivery is processed at most once, and not at all when the message cannot be decoded.
\<close>

lemma processed_at_most_once:
  "length (filter is_process (handler_calls rt c ctx w msg s)) \<le> (if decoded msg = None then 0 else 1)"
proof (rule handler_trace [of c ctx w msg rt s])
  fix ft assume "message_trace c ctx w msg (handler_calls rt c ctx w msg s) ft"
  then show ?thesis
    by (cases rule: message_trace_elim) (auto simp: gate_trace_calls elim!: failure_trace_cases)
qed

end
