(* ===== verification/Idempotency.thy ===== *)
theory Idempotency
  imports Redis_Memory Consumer_Correct
begin

section \<open>Idempotency keys\<close>

text \<open>
  The contract of the idempotency checker as a locale, provided by \<open>IdempotencyStore\<close> from the
  documented behaviour of \<open>SET NX\<close>, and what the consumer makes of it: of the deliveries that carry
  a key, retries of a failed task included, one is processed while the key is remembered, and one
  more for each check that fails.
\<close>

definition keeps :: "('w \<Rightarrow> 'k set) \<Rightarrow> ('w, 'a) state \<Rightarrow> bool" where
  "keeps f m \<longleftrightarrow> (\<forall>s. f s \<subseteq> f (snd (run_state m s)))"

lemma keepsD: "keeps f m \<Longrightarrow> run_state m s = (r, s') \<Longrightarrow> f s \<subseteq> f s'"
  unfolding keeps_def by (metis snd_conv)

lemma keeps_return [simp]: "keeps f (State_Monad.return x)"
  by (simp add: keeps_def)

lemma keeps_bind:
  assumes "keeps f m" and "\<And>a. keeps f (g a)"
  shows "keeps f (State_Monad.bind m g)"
  unfolding keeps_def
proof
  fix s
  obtain a s1 where "run_state m s = (a, s1)" by fastforce
  moreover obtain b s2 where "run_state (g a) s1 = (b, s2)" by fastforce
  ultimately show "f s \<subseteq> f (snd (run_state (State_Monad.bind m g) s))"
    using keepsD [OF assms(1)] keepsD [OF assms(2)] by fastforce
qed

subsection \<open>The contract\<close>

text \<open>
  \<open>seen w\<close> are the keys the checker remembers in the outside state \<open>w\<close>. An answer is right,
  and the key is remembered from then on (within its time to live).
\<close>

locale once_checker =
  fixes check :: "'w idempotency_checker" and seen :: "'w \<Rightarrow> string set"
  assumes answer: "run_state (check ctx k) w = (Inr b, w') \<Longrightarrow> (b \<longleftrightarrow> k \<notin> seen w) \<and> k \<in> seen w'"
    and check_keeps: "keeps seen (check ctx k)"

text \<open>What Redis documents of \<open>SET key value NX\<close>: it succeeds exactly for an absent key.\<close>

locale set_nx_client =
  fixes client :: "'w redis_client" and keys :: "'w \<Rightarrow> string set"
  assumes set_nx: "run_state (SetNX client ctx k v ttl) w = (Inr b, w') \<Longrightarrow> (b \<longleftrightarrow> k \<notin> keys w) \<and> k \<in> keys w'"
    and set_nx_keeps: "keeps keys (SetNX client ctx k v ttl)"

definition idemp_keys :: "('w \<Rightarrow> string set) \<Rightarrow> 'w \<Rightarrow> string set" where
  "idemp_keys keys w = {k. ''idemp:'' @ k \<in> keys w}"

sublocale set_nx_client \<subseteq> idemp: once_checker "idempotency_Check (new_idempotency_store client ttl)" "idemp_keys keys"
  for ttl
proof
  fix ctx k w b w'
  assume "run_state (idempotency_Check (new_idempotency_store client ttl) ctx k) w = (Inr b, w')"
  then show "(b \<longleftrightarrow> k \<notin> idemp_keys keys w) \<and> k \<in> idemp_keys keys w'"
    by (auto simp: idempotency_Check_def new_idempotency_store_def idemp_keys_def Let_def
        dest: set_nx split: prod.splits sum.splits)
next
  fix ctx k
  have "keeps keys (idempotency_Check (new_idempotency_store client ttl) ctx k)"
    unfolding idempotency_Check_def new_idempotency_store_def Let_def
    by (auto intro!: keeps_bind set_nx_keeps split: sum.split)
  then show "keeps (idemp_keys keys) (idempotency_Check (new_idempotency_store client ttl) ctx k)"
    unfolding keeps_def idemp_keys_def by blast
qed

interpretation mem_keys: set_nx_client mem_redis r_keys
  by unfold_locales (auto simp: mem_redis_def mem_SetNX_def keeps_def)

subsection \<open>A consumer with a checker\<close>

text \<open>The collaborators of the consumer, its checker apart, do not forget keys.\<close>

locale keyed_consumer = once_checker check seen
  for check :: "'w idempotency_checker" and seen :: "'w \<Rightarrow> string set" +
  fixes rt :: "'w runtime" and c :: "'w consumer"
  assumes checker: "c_idempotency c = Some check"
    and add_keeps: "keeps seen (store_Add (c_store c) ctx st t)"
    and ack_keeps: "keeps seen (store_Ack (c_store c) ctx st g m)"
    and publish_keeps: "keeps seen (c_publisher c ctx e)"
    and process_keeps: "keeps seen (c_processor c ctx t)"
    and runtime_keeps: "keeps seen (rt_inc rt mt)" "keeps seen (rt_observe rt mt d)" "keeps seen (rt_now rt)"

text \<open>
  \<open>remembering seen m\<close>: no key is forgotten, every answered check leaves its key remembered,
  and a key that was remembered at the start is never answered as new.
\<close>

definition answers_ok :: "('w \<Rightarrow> string set) \<Rightarrow> 'w \<Rightarrow> call list \<Rightarrow> 'w \<Rightarrow> bool" where
  "answers_ok seen w tr w' \<longleftrightarrow> seen w \<subseteq> seen w' \<and>
     (\<forall>x k b. CCheck x k (Inr b) \<in> set tr \<longrightarrow> k \<in> seen w') \<and>
     (\<forall>x k. CCheck x k (Inr True) \<in> set tr \<longrightarrow> k \<notin> seen w)"

definition remembering :: "('w \<Rightarrow> string set) \<Rightarrow> ('w spied, 'a) state \<Rightarrow> bool" where
  "remembering seen m \<longleftrightarrow> (\<forall>s. \<exists>tr. calls (snd (run_state m s)) = calls s @ tr \<and>
     answers_ok seen (world s) tr (world (snd (run_state m s))))"

fun is_check :: "call \<Rightarrow> bool" where
  "is_check (CCheck _ _ _) = True"
| "is_check _ = False"

named_theorems remembering_intros \<open>operations that keep the checker's answers consistent\<close>

lemma answers_ok_append:
  "answers_ok seen w tr w' \<Longrightarrow> answers_ok seen w' tr' w'' \<Longrightarrow> answers_ok seen w (tr @ tr') w''"
  unfolding answers_ok_def set_append by blast

lemma rememberingI:
  "(\<And>s r s'. run_state m s = (r, s') \<Longrightarrow>
      \<exists>tr. calls s' = calls s @ tr \<and> answers_ok seen (world s) tr (world s')) \<Longrightarrow> remembering seen m"
  unfolding remembering_def by (metis prod.collapse)

lemma rememberingD:
  assumes "remembering seen m" and "run_state m s = (r, s')"
  obtains tr where "calls s' = calls s @ tr" and "answers_ok seen (world s) tr (world s')"
  using assms(1) [unfolded remembering_def, rule_format, of s] assms(2) that by auto

lemma remembering_return [remembering_intros]: "remembering seen (State_Monad.return x)"
  by (simp add: remembering_def answers_ok_def)

lemma remembering_spy:
  assumes "keeps seen m" and "\<And>r. \<not> is_check (f r)"
  shows "remembering seen (spy m f)"
proof (rule rememberingI)
  fix s r s' assume "run_state (spy m f) s = (r, s')"
  moreover have "seen (world s) \<subseteq> seen (snd (run_state m (world s)))" using assms(1) by (simp add: keeps_def)
  ultimately show "\<exists>tr. calls s' = calls s @ tr \<and> answers_ok seen (world s) tr (world s')"
    using assms(2) by (intro exI [of _ "[f r]"]) (auto simp: run_spy answers_ok_def dest: arg_cong [of _ _ is_check])
qed

lemma remembering_unspied: "keeps seen m \<Longrightarrow> remembering seen (unspied m)"
  by (auto simp: remembering_def answers_ok_def keeps_def run_unspied)

lemma remembering_bind [remembering_intros]:
  assumes "remembering seen m" and "\<And>a. remembering seen (f a)"
  shows "remembering seen (State_Monad.bind m f)"
proof (rule rememberingI)
  fix s r s' assume run: "run_state (State_Monad.bind m f) s = (r, s')"
  obtain a s1 where m: "run_state m s = (a, s1)" by fastforce
  with run have f: "run_state (f a) s1 = (r, s')" by simp
  obtain tr1 where 1: "calls s1 = calls s @ tr1" "answers_ok seen (world s) tr1 (world s1)"
    using rememberingD [OF assms(1) m] .
  obtain tr2 where 2: "calls s' = calls s1 @ tr2" "answers_ok seen (world s1) tr2 (world s')"
    using rememberingD [OF assms(2) f] .
  show "\<exists>tr. calls s' = calls s @ tr \<and> answers_ok seen (world s) tr (world s')"
    using 1 2 answers_ok_append by (intro exI [of _ "tr1 @ tr2"]) auto
qed

context keyed_consumer
begin

lemma remembering_check [remembering_intros]: "remembering seen (spy (check ctx k) (CCheck ctx k))"
proof (rule rememberingI)
  fix s r s' assume run: "run_state (spy (check ctx k) (CCheck ctx k)) s = (r, s')"
  then have r: "run_state (check ctx k) (world s) = (r, world s')" and tr: "calls s' = calls s @ [CCheck ctx k r]"
    by (auto simp: run_spy)
  have "seen (world s) \<subseteq> seen (world s')" using keepsD [OF check_keeps r] .
  moreover have "r = Inr b \<Longrightarrow> (b \<longleftrightarrow> k \<notin> seen (world s)) \<and> k \<in> seen (world s')" for b
    using answer r by blast
  ultimately have "answers_ok seen (world s) [CCheck ctx k r] (world s')"
    by (auto simp: answers_ok_def)
  with tr show "\<exists>tr. calls s' = calls s @ tr \<and> answers_ok seen (world s) tr (world s')" by blast
qed

lemma remembering_calls [remembering_intros]:
  "remembering seen (spy (store_Add (c_store c) ctx st t) (CAdd ctx st t))"
  "remembering seen (spy (store_Ack (c_store c) ctx st g m) (CAck ctx st g m))"
  "remembering seen (spy (c_publisher c ctx e) (CPublish ctx e))"
  "remembering seen (spy (c_processor c ctx t) (CProcess ctx t))"
  "remembering seen (spy (rt_inc rt mt) (\<lambda>_. CInc mt))"
  "remembering seen (spy (rt_observe rt mt d) (\<lambda>_. CObserve mt d))"
  "remembering seen (unspied (rt_now rt))"
  by (auto intro!: remembering_spy remembering_unspied add_keeps ack_keeps publish_keeps process_keeps runtime_keeps)

lemma remembering_process_message:
  "remembering seen (process_message (spy_runtime rt) (spy_consumer c) ctx w msg)"
  unfolding process_message_def process_task_def handle_task_failure_def is_duplicate_def acknowledge_def
    publish_event_def Let_def
  by (auto simp: checker split: option.split sum.split proc_result.split prod.split intro!: remembering_intros)

lemma handler_answers:
  "answers_ok seen s (handler_calls rt c ctx w msg s) (handler_state rt c ctx w msg s)"
proof -
  let ?m = "process_message (spy_runtime rt) (spy_consumer c) ctx w msg"
  let ?s = "\<lparr>calls = [], world = s\<rparr>"
  obtain r s' where run: "run_state ?m ?s = (r, s')" by fastforce
  then have "handler_state rt c ctx w msg s = world s'"
    using mirrors_process_message [unfolded mirrors_def, rule_format, of rt c ctx w msg ?s]
    by (simp add: handler_state_def)
  moreover obtain tr where "calls s' = tr" "answers_ok seen s tr (world s')"
    using rememberingD [OF remembering_process_message run] by auto
  ultimately show ?thesis using run by (simp add: handler_calls_def)
qed

text \<open>A delivery whose key is remembered is skipped, unless the check itself fails.\<close>

lemma known_key_is_skipped:
  assumes "decoded msg = Some t" and "IdempotencyKey t \<noteq> []" and "IdempotencyKey t \<in> seen s"
    and "\<And>e. CCheck ctx (IdempotencyKey t) (Inl e) \<notin> set (handler_calls rt c ctx w msg s)"
  shows "\<exists>r. handler_calls rt c ctx w msg s =
    [CCheck ctx (IdempotencyKey t) (Inr False), CInc TasksDuplicateTotal,
     CAck Background (c_stream c) (c_group c) (MsgID msg) r]"
proof -
  obtain ft where tr: "message_trace c ctx w msg (handler_calls rt c ctx w msg s) ft"
    using handler_trace [of c ctx w msg rt s] .
  have new: "CCheck ctx (IdempotencyKey t) (Inr True) \<notin> set (handler_calls rt c ctx w msg s)"
    using handler_answers [of s ctx w msg] assms(3) unfolding answers_ok_def by blast
  have gate: "g = [CCheck ctx (IdempotencyKey t) (Inr False)] \<and> dup"
    if "gate_trace (has_checker c) ctx t g dup" and "set g \<subseteq> set (handler_calls rt c ctx w msg s)" for g dup
    using that assms(2,4) new by (auto simp: has_checker_def checker elim!: gate_traceE)
  from tr show ?thesis
  proof (cases rule: message_trace.cases)
    case unreadable
    then show ?thesis using assms(1) by simp
  next
    case (duplicate t' g r)
    then show ?thesis using gate [of g True] assms(1) by auto
  next
    case (processed t' g tr')
    then show ?thesis using gate [of g False] assms(1) by auto
  qed
qed

lemma checked_key_is_skipped:
  assumes "CCheck x k (Inr b) \<in> set (handler_calls rt c ctx w msg s)"
    and "seen (handler_state rt c ctx w msg s) \<subseteq> seen s2"
    and "decoded msg2 = Some t2" and "IdempotencyKey t2 = k" and "k \<noteq> []"
    and "\<And>e. CCheck ctx2 k (Inl e) \<notin> set (handler_calls rt c ctx2 w2 msg2 s2)"
  shows "\<exists>r. handler_calls rt c ctx2 w2 msg2 s2 =
    [CCheck ctx2 k (Inr False), CInc TasksDuplicateTotal,
     CAck Background (c_stream c) (c_group c) (MsgID msg2) r]"
proof -
  have "k \<in> seen (handler_state rt c ctx w msg s)"
    using handler_answers [of s ctx w msg] assms(1) unfolding answers_ok_def by blast
  then show ?thesis using known_key_is_skipped [of msg2 t2 s2 ctx2 w2] assms by auto
qed

end

text \<open>A key the gate consulted is not empty.\<close>

lemma checked_key_not_empty:
  assumes "CCheck x k r \<in> set (handler_calls rt c ctx w msg s)"
  shows "k \<noteq> [] \<and> x = ctx \<and> (\<exists>t. decoded msg = Some t \<and> IdempotencyKey t = k)"
proof (rule handler_trace [of c ctx w msg rt s])
  fix ft assume tr: "message_trace c ctx w msg (handler_calls rt c ctx w msg s) ft"
  then obtain t g dup where "decoded msg = Some t" "gate_trace (has_checker c) ctx t g dup" "CCheck x k r \<in> set g"
    using assms by (cases rule: message_trace_elim) (auto elim!: failure_trace_cases)
  then show ?thesis by (auto elim: gate_traceE)
qed

subsection \<open>A key over many deliveries\<close>

text \<open>
  A delivery to the handler: its context, worker and message, and the outside state it meets.
  \<open>remembered\<close>: from the end of one to the start of the next no key was forgotten.
\<close>

record 'w delivery =
  dl_ctx :: go_ctx
  dl_worker :: int
  dl_msg :: stream_message
  dl_world :: 'w

definition delivery_calls :: "'w runtime \<Rightarrow> 'w consumer \<Rightarrow> 'w delivery \<Rightarrow> call list" where
  "delivery_calls rt c d = handler_calls rt c (dl_ctx d) (dl_worker d) (dl_msg d) (dl_world d)"

definition delivery_state :: "'w runtime \<Rightarrow> 'w consumer \<Rightarrow> 'w delivery \<Rightarrow> 'w" where
  "delivery_state rt c d = handler_state rt c (dl_ctx d) (dl_worker d) (dl_msg d) (dl_world d)"

fun remembered :: "('w \<Rightarrow> string set) \<Rightarrow> 'w runtime \<Rightarrow> 'w consumer \<Rightarrow> 'w delivery list \<Rightarrow> bool" where
  "remembered seen rt c (d # e # ds) = (seen (delivery_state rt c d) \<subseteq> seen (dl_world e) \<and> remembered seen rt c (e # ds))"
| "remembered seen rt c _ = True"

definition carries :: "string \<Rightarrow> 'w delivery \<Rightarrow> bool" where
  "carries k d = (case decoded (dl_msg d) of None \<Rightarrow> False | Some t \<Rightarrow> IdempotencyKey t = k)"

definition keyed_calls :: "'w runtime \<Rightarrow> 'w consumer \<Rightarrow> string \<Rightarrow> 'w delivery list \<Rightarrow> call list" where
  "keyed_calls rt c k ds = concat (map (delivery_calls rt c) (filter (carries k) ds))"

fun is_failed_check :: "call \<Rightarrow> bool" where
  "is_failed_check (CCheck _ _ (Inl _)) = True"
| "is_failed_check _ = False"

text \<open>One delivery with a key, on a consumer with a checker.\<close>

lemma keyed_delivery:
  assumes "decoded msg = Some t" and "IdempotencyKey t \<noteq> []" and "has_checker c"
  shows "let tr = handler_calls rt c ctx w msg s in
    length (filter is_process tr) + length (filter (\<lambda>call. call = CInc TasksDuplicateTotal) tr) = 1 \<and>
    length (filter is_add tr) \<le> length (filter is_process tr) \<and>
    (\<exists>r. CCheck ctx (IdempotencyKey t) r \<in> set tr \<and>
      (case r of Inl e \<Rightarrow> 1 \<le> length (filter is_failed_check tr)
       | Inr isNew \<Rightarrow> length (filter is_process tr) = (if isNew then 1 else 0)))"
proof (rule handler_trace [of c ctx w msg rt s])
  fix ft assume "message_trace c ctx w msg (handler_calls rt c ctx w msg s) ft"
  then show ?thesis
    by (cases rule: message_trace_elim)
       (use assms in \<open>auto simp: Let_def elim!: gate_traceE failure_trace_cases\<close>)
qed

context keyed_consumer
begin

lemma checked: "has_checker c"
  by (simp add: has_checker_def checker)

lemma carried_delivery:
  assumes "carries k d" and "k \<noteq> []"
  shows "length (filter is_process (delivery_calls rt c d)) +
      length (filter (\<lambda>call. call = CInc TasksDuplicateTotal) (delivery_calls rt c d)) = 1"
    and "length (filter is_add (delivery_calls rt c d)) \<le> length (filter is_process (delivery_calls rt c d))"
    and "k \<in> seen (dl_world d) \<or> k \<notin> seen (delivery_state rt c d) \<Longrightarrow>
      length (filter is_process (delivery_calls rt c d)) \<le> length (filter is_failed_check (delivery_calls rt c d))"
proof -
  obtain t where t: "decoded (dl_msg d) = Some t" "IdempotencyKey t = k"
    using assms(1) by (auto simp: carries_def split: option.splits)
  note one = keyed_delivery [OF t(1) _ checked, where rt = rt and ctx = "dl_ctx d" and w = "dl_worker d" and s = "dl_world d",
      unfolded t(2) Let_def, folded delivery_calls_def, OF assms(2)]
  show sum: "length (filter is_process (delivery_calls rt c d)) +
      length (filter (\<lambda>call. call = CInc TasksDuplicateTotal) (delivery_calls rt c d)) = 1"
    and "length (filter is_add (delivery_calls rt c d)) \<le> length (filter is_process (delivery_calls rt c d))"
    using one by simp_all
  assume seen: "k \<in> seen (dl_world d) \<or> k \<notin> seen (delivery_state rt c d)"
  obtain r where r: "CCheck (dl_ctx d) k r \<in> set (delivery_calls rt c d)"
    "case r of Inl e \<Rightarrow> 1 \<le> length (filter is_failed_check (delivery_calls rt c d))
       | Inr isNew \<Rightarrow> length (filter is_process (delivery_calls rt c d)) = (if isNew then 1 else 0)"
    using one by blast
  have answers: "answers_ok seen (dl_world d) (delivery_calls rt c d) (delivery_state rt c d)"
    unfolding delivery_calls_def delivery_state_def by (rule handler_answers)
  show "length (filter is_process (delivery_calls rt c d)) \<le> length (filter is_failed_check (delivery_calls rt c d))"
  proof (cases r)
    case Inl
    then show ?thesis using r(2) sum by simp
  next
    case (Inr isNew)
    then have "k \<in> seen (delivery_state rt c d)" using answers r(1) unfolding answers_ok_def by blast
    moreover have "k \<notin> seen (dl_world d)" if isNew
      using answers r(1) Inr that unfolding answers_ok_def by simp
    ultimately show ?thesis using r(2) Inr seen by (cases isNew) auto
  qed
qed

lemma keyed_calls_each:
  assumes "k \<noteq> []"
  shows "length (filter is_process (keyed_calls rt c k ds)) +
      length (filter (\<lambda>call. call = CInc TasksDuplicateTotal) (keyed_calls rt c k ds)) = length (filter (carries k) ds) \<and>
    length (filter is_add (keyed_calls rt c k ds)) \<le> length (filter is_process (keyed_calls rt c k ds))"
proof (induction ds)
  case (Cons d ds)
  then show ?case using carried_delivery(1,2) [of k d] assms by (auto simp: keyed_calls_def)
qed (simp add: keyed_calls_def)

lemma delivery_remembers: "seen (dl_world d) \<subseteq> seen (delivery_state rt c d)"
  using handler_answers unfolding answers_ok_def delivery_state_def by blast

lemma keyed_calls_bounded:
  assumes "k \<noteq> []" and "remembered seen rt c ds"
  shows "length (filter is_process (keyed_calls rt c k ds)) \<le>
    (if ds \<noteq> [] \<and> k \<in> seen (dl_world (hd ds)) then 0 else 1) + length (filter is_failed_check (keyed_calls rt c k ds))"
  using assms(2)
proof (induction ds)
  case (Cons d ds)
  have later: "k \<in> seen (dl_world (hd ds))" if "k \<in> seen (delivery_state rt c d)" "ds \<noteq> []"
    using that Cons.prems by (cases ds) auto
  have "remembered seen rt c ds" using Cons.prems by (cases ds) auto
  note IH = Cons.IH [OF this]
  show ?case
  proof (cases "carries k d")
    case True
    note one = carried_delivery [OF True assms(1)]
    have calls: "keyed_calls rt c k (d # ds) = delivery_calls rt c d @ keyed_calls rt c k ds"
      using True by (simp add: keyed_calls_def)
    have none: "keyed_calls rt c k [] = []" by (simp add: keyed_calls_def)
    show ?thesis
    proof (cases "k \<in> seen (delivery_state rt c d)")
      case True
      then have "length (filter is_process (keyed_calls rt c k ds)) \<le> length (filter is_failed_check (keyed_calls rt c k ds))"
        using IH later none by (cases "ds = []") auto
      then show ?thesis using one(1,3) unfolding calls by (cases "k \<in> seen (dl_world d)") auto
    next
      case False
      then show ?thesis using one(3) IH delivery_remembers [of d] unfolding calls by (auto split: if_splits)
    qed
  next
    case False
    then have "keyed_calls rt c k (d # ds) = keyed_calls rt c k ds" by (simp add: keyed_calls_def)
    moreover have "keyed_calls rt c k [] = []" by (simp add: keyed_calls_def)
    ultimately show ?thesis using IH later delivery_remembers [of d] by (cases "ds = []") (auto split: if_splits)
  qed
qed (simp add: keyed_calls_def)

end

subsection \<open>The consumer on the in-memory Redis\<close>

text \<open>For the witnesses: every collaborator the program builds, on the in-memory server.\<close>

definition redis_consumer :: "redis_state task_processor \<Rightarrow> redis_state consumer" where
  "redis_consumer processor = with_idempotency
     (new_consumer (new_store mem_redis) (publisher_Publish (new_publisher mem_redis ''buraq_events'')) processor
        ''tasks'' ''workers'' ''node'' 5 10 (word_of_int (2 * second)) ''tasks_dlq'' 3)
     (idempotency_Check (new_idempotency_store mem_redis 0))"

definition idle_runtime :: "'w runtime" where
  "idle_runtime = \<lparr>rt_inc = (\<lambda>m. State_Monad.return ()), rt_observe = (\<lambda>m d. State_Monad.return ()),
     rt_now = State_Monad.return 0\<rparr>"

definition failing_processor :: "error \<Rightarrow> 'w task_processor" where
  "failing_processor e ctx t = State_Monad.return (t, Returned (Some e))"

lemma keeps_redis:
  "keeps (idemp_keys r_keys) (Store_Add mem_redis ctx st t)"
  "keeps (idemp_keys r_keys) (Store_Ack mem_redis ctx st grp m)"
  "keeps (idemp_keys r_keys) (publisher_Publish (new_publisher mem_redis ch) ctx e)"
proof -
  have "keeps (idemp_keys r_keys) (XAdd mem_redis ctx st vals)" for vals
    by (simp add: keeps_def idemp_keys_def mem_redis_keys)
  then show "keeps (idemp_keys r_keys) (Store_Add mem_redis ctx st t)"
    by (auto simp: Store_Add_def split: sum.split)
  show "keeps (idemp_keys r_keys) (Store_Ack mem_redis ctx st grp m)"
    by (simp add: Store_Ack_def keeps_def idemp_keys_def mem_redis_keys)
  have "keeps (idemp_keys r_keys) (RPublish mem_redis ctx ch d)" for d
    by (simp add: keeps_def idemp_keys_def mem_redis_keys)
  then show "keeps (idemp_keys r_keys) (publisher_Publish (new_publisher mem_redis ch) ctx e)"
    by (auto simp: publisher_Publish_def new_publisher_def intro!: keeps_bind split: option.split)
qed

interpretation redis_keyed: keyed_consumer "idempotency_Check (new_idempotency_store mem_redis 0)" "idemp_keys r_keys"
    idle_runtime "redis_consumer (failing_processor e)"
  for e
  by unfold_locales
    (simp_all add: redis_consumer_def with_idempotency_def new_consumer_def new_store_def keeps_redis
      idle_runtime_def failing_processor_def keeps_def [of _ "State_Monad.return _"])

text \<open>A keyed task with one retry to spend, and its first delivery.\<close>

definition keyed_task :: task where
  "keyed_task = sample_task\<lparr>Payload := Some ''[1,2]''\<rparr>"

lemma keyed_task_simps [simp]:
  "ID keyed_task = ''t1''" "Type keyed_task = ''email''" "MaxRetries keyed_task = 1" "CurrentRetries keyed_task = 0"
  "IdempotencyKey keyed_task = ''k''" "Timeout keyed_task = Some 5" "Payload keyed_task = Some ''[1,2]''"
  by (simp_all add: keyed_task_def sample_task_def)

definition retried_keyed_task :: task where
  "retried_keyed_task = keyed_task\<lparr>Error := ''boom'', CurrentRetries := 1\<rparr>"

lemma valid_boom: "valid_utf8 ''boom''"
  by code_simp

lemma first_entry_id: "entry_id (Suc 0) = ''1-0''"
  by code_simp

lemma json_keyed_tasks: "json_task keyed_task" "json_task retried_keyed_task"
  using json_sample_task(2) valid_boom by (simp_all add: json_task_def retried_keyed_task_def keyed_task_def)

lemma normal_keyed_tasks: "normal_task keyed_task = keyed_task" "normal_task retried_keyed_task = retried_keyed_task"
  by (simp_all add: normal_task_def retried_keyed_task_def keyed_task_def marshal_payload_def sample_payloads)

abbreviation failing_consumer :: "redis_state consumer" where
  "failing_consumer \<equiv> redis_consumer (failing_processor ''boom'')"

lemma unmarshal_keyed:
  obtains s s' where "marshal keyed_task = Inr s" "unmarshal s = Inr keyed_task"
    "marshal retried_keyed_task = Inr s'" "unmarshal s' = Inr retried_keyed_task"
  using unmarshal_marshal [OF json_keyed_tasks(1)] unmarshal_marshal [OF json_keyed_tasks(2)] normal_keyed_tasks
  by auto

lemmas redis_run_defs = handler_defs redis_consumer_def with_idempotency_def new_consumer_def store_defs
  publisher_Publish_def new_publisher_def idle_runtime_def failing_processor_def idempotency_Check_def new_idempotency_store_def
  mem_redis_defs make_stream_msg_def

lemma first_delivery:
  "handler_calls idle_runtime failing_consumer Background 1 (make_stream_msg ''1-0'' keyed_task) empty_redis =
    [CCheck Background ''k'' (Inr True),
     CPublish Background \<lparr>EType = ''Processing'', TaskID = ''t1'', WorkerID = ''node-1''\<rparr> None,
     CProcess (WithTimeout Background 5) keyed_task (keyed_task, Returned (Some ''boom'')),
     CObserve (TaskDurationSeconds ''email'') 0,
     CInc (TasksProcessedTotal ''email'' ''error''), CInc (TasksFailedTotal ''email''),
     CPublish Background \<lparr>EType = ''Failed'', TaskID = ''t1'', WorkerID = ''node-1''\<rparr> None,
     CAdd Background ''tasks'' retried_keyed_task (Inr ''1-0''),
     CAck Background ''tasks'' ''workers'' ''1-0'' None]"
proof -
  obtain s s' where "marshal keyed_task = Inr s" "unmarshal s = Inr keyed_task"
    "marshal retried_keyed_task = Inr s'" "unmarshal s' = Inr retried_keyed_task"
    by (rule unmarshal_keyed)
  then show ?thesis
    by (simp add: redis_run_defs show_worker_1 sless64_def retried_keyed_task_def empty_redis_def empty_stream_def first_entry_id)
qed

lemma first_delivery_keys:
  "''k'' \<in> idemp_keys r_keys (handler_state idle_runtime failing_consumer Background 1 (make_stream_msg ''1-0'' keyed_task) empty_redis)"
  using redis_keyed.handler_answers [where s = empty_redis and e = "''boom''" and ctx = Background and w = 1
      and msg = "make_stream_msg ''1-0'' keyed_task"]
  unfolding answers_ok_def first_delivery by fastforce

lemma second_delivery:
  assumes "''k'' \<in> idemp_keys r_keys w"
  shows "handler_calls idle_runtime failing_consumer Background 2 (make_stream_msg ''2-0'' retried_keyed_task) w =
    [CCheck Background ''k'' (Inr False), CInc TasksDuplicateTotal,
     CAck Background ''tasks'' ''workers'' ''2-0'' None]"
proof -
  obtain s s' where s: "marshal keyed_task = Inr s" "unmarshal s = Inr keyed_task"
    "marshal retried_keyed_task = Inr s'" "unmarshal s' = Inr retried_keyed_task"
    by (rule unmarshal_keyed)
  have "IdempotencyKey retried_keyed_task = ''k''" by (simp add: retried_keyed_task_def)
  with s assms show ?thesis
    by (simp add: redis_run_defs idemp_keys_def)
qed

subsection \<open>Properties\<close>

text \<open>
  C27: A key is processed once. When a delivery's key was checked, every later delivery with that
  key is skipped while the checker remembers the key: the handler checks it, counts a duplicate,
  acknowledges the message and does nothing else (unless the check itself fails, which lets the
  task through). The checker and the other collaborators are any that meet the contract
  keyed_consumer.
\<close>

theorem key_processed_once:
  assumes "keyed_consumer check seen rt c"
    and "CCheck ctx k (Inr b) \<in> set (handler_calls rt c ctx w msg s)"
    and "seen (handler_state rt c ctx w msg s) \<subseteq> seen s2"
    and "decoded msg2 = Some t2" and "IdempotencyKey t2 = k"
    and "\<forall>e. CCheck ctx2 k (Inl e) \<notin> set (handler_calls rt c ctx2 w2 msg2 s2)"
  shows "\<exists>r. handler_calls rt c ctx2 w2 msg2 s2 =
    [CCheck ctx2 k (Inr False), CInc TasksDuplicateTotal,
     CAck Background (c_stream c) (c_group c) (MsgID msg2) r]"
  using keyed_consumer.checked_key_is_skipped [OF assms(1-5)] checked_key_not_empty [OF assms(2)] assms(6)
  by blast

theorem key_processed_once_witness:
  "let calls1 = handler_calls idle_runtime failing_consumer Background 1 (make_stream_msg ''1-0'' keyed_task) empty_redis;
       s2 = handler_state idle_runtime failing_consumer Background 1 (make_stream_msg ''1-0'' keyed_task) empty_redis in
   CCheck Background ''k'' (Inr True) \<in> set calls1 \<and>
   (\<exists>r. handler_calls idle_runtime failing_consumer Background 2 (make_stream_msg ''2-0'' retried_keyed_task) s2 =
      [CCheck Background ''k'' (Inr False), CInc TasksDuplicateTotal,
       CAck Background ''tasks'' ''workers'' ''2-0'' r])"
proof -
  let ?m1 = "make_stream_msg ''1-0'' keyed_task"
  let ?m2 = "make_stream_msg ''2-0'' retried_keyed_task"
  let ?s2 = "handler_state idle_runtime failing_consumer Background 1 ?m1 empty_redis"
  have c: "CCheck Background ''k'' (Inr True) \<in> set (handler_calls idle_runtime failing_consumer Background 1 ?m1 empty_redis)"
    by (simp add: first_delivery)
  have d: "decoded ?m2 = Some retried_keyed_task"
    using decoded_make_stream_msg [OF json_keyed_tasks(2)] by (simp add: normal_keyed_tasks)
  have k: "IdempotencyKey retried_keyed_task = ''k''" by (simp add: retried_keyed_task_def)
  have n: "\<forall>e. CCheck Background ''k'' (Inl e) \<notin> set (handler_calls idle_runtime failing_consumer Background 2 ?m2 ?s2)"
    by (simp add: second_delivery first_delivery_keys)
  have st: "c_stream failing_consumer = ''tasks''" "c_group failing_consumer = ''workers''" "MsgID ?m2 = ''2-0''"
    by (simp_all add: redis_consumer_def with_idempotency_def new_consumer_def make_stream_msg_def)
  show ?thesis
    using key_processed_once [OF redis_keyed.keyed_consumer_axioms c subset_refl d k n] c
    by (simp add: Let_def st)
qed

text \<open>
  C19: A keyed task is processed once, so its retries are dropped. Take the deliveries of messages to
  the handler, one after the other, by whichever workers and with whatever happens in between, as
  long as the checker still remembers a key from one delivery to the next (its time to live has not
  passed) and the collaborators meet the contract keyed_consumer. Of all deliveries that carry one
  key, retries of a failed task included as they are re-queued with its key, at most one is
  processed and at most one written back, plus one for each time the check itself failed, which lets
  the task through; all the others are counted as duplicates. MaxRetries plays no part in it.
\<close>

theorem keyed_task_runs_once:
  assumes "keyed_consumer check seen rt c" and "k \<noteq> []" and "remembered seen rt c ds"
  shows "let tr = keyed_calls rt c k ds in
    length (filter is_process tr) \<le> 1 + length (filter is_failed_check tr) \<and>
    length (filter is_add tr) \<le> 1 + length (filter is_failed_check tr) \<and>
    length (filter is_process tr) + length (filter (\<lambda>call. call = CInc TasksDuplicateTotal) tr) =
      length (filter (carries k) ds)"
  using keyed_consumer.keyed_calls_bounded [OF assms] keyed_consumer.keyed_calls_each [OF assms(1,2), of ds]
  by (auto simp: Let_def split: if_splits)

definition first_and_retry :: "redis_state delivery list" where
  "first_and_retry =
     [\<lparr>dl_ctx = Background, dl_worker = 1, dl_msg = make_stream_msg ''1-0'' keyed_task, dl_world = empty_redis\<rparr>,
      \<lparr>dl_ctx = Background, dl_worker = 2, dl_msg = make_stream_msg ''2-0'' retried_keyed_task,
       dl_world = handler_state idle_runtime failing_consumer Background 1 (make_stream_msg ''1-0'' keyed_task) empty_redis\<rparr>]"

theorem keyed_task_runs_once_witness:
  "let tr = keyed_calls idle_runtime failing_consumer ''k'' first_and_retry in
   CAdd Background ''tasks'' retried_keyed_task (Inr ''1-0'') \<in> set tr \<and>
   length (filter is_process tr) = 1 \<and> length (filter (\<lambda>call. call = CInc TasksDuplicateTotal) tr) = 1"
proof -
  have d: "decoded (make_stream_msg ''1-0'' keyed_task) = Some keyed_task"
    "decoded (make_stream_msg ''2-0'' retried_keyed_task) = Some retried_keyed_task"
    using decoded_make_stream_msg [OF json_keyed_tasks(1)] decoded_make_stream_msg [OF json_keyed_tasks(2)]
    by (simp_all add: normal_keyed_tasks)
  have k: "IdempotencyKey retried_keyed_task = ''k''" by (simp add: retried_keyed_task_def)
  have both: "filter (carries ''k'') first_and_retry = first_and_retry"
    by (simp add: first_and_retry_def carries_def d k)
  have tr: "keyed_calls idle_runtime failing_consumer ''k'' first_and_retry =
      handler_calls idle_runtime failing_consumer Background 1 (make_stream_msg ''1-0'' keyed_task) empty_redis @
      [CCheck Background ''k'' (Inr False), CInc TasksDuplicateTotal, CAck Background ''tasks'' ''workers'' ''2-0'' None]"
    unfolding keyed_calls_def both
    by (simp add: first_and_retry_def delivery_calls_def second_delivery first_delivery_keys)
  have add: "CAdd Background ''tasks'' retried_keyed_task (Inr ''1-0'') \<in> set (keyed_calls idle_runtime failing_consumer ''k'' first_and_retry)"
    and dup: "length (filter (\<lambda>call. call = CInc TasksDuplicateTotal) (keyed_calls idle_runtime failing_consumer ''k'' first_and_retry)) = 1"
    and len: "length first_and_retry = 2"
    unfolding tr first_delivery by (simp_all add: first_and_retry_def)
  have "remembered (idemp_keys r_keys) idle_runtime failing_consumer first_and_retry"
    by (simp add: first_and_retry_def delivery_state_def)
  with keyed_task_runs_once [OF redis_keyed.keyed_consumer_axioms _ this, of "''k''"]
  have "length (filter is_process (keyed_calls idle_runtime failing_consumer ''k'' first_and_retry)) +
      length (filter (\<lambda>call. call = CInc TasksDuplicateTotal) (keyed_calls idle_runtime failing_consumer ''k'' first_and_retry)) =
      length (filter (carries ''k'') first_and_retry)"
    by (simp add: Let_def)
  with add dup len both show ?thesis by (simp add: Let_def)
qed

text \<open>
  The Redis checker's answers. On any client whose SET NX behaves as documented, Check answers
  true exactly for the keys that are not remembered, remembers the key it was asked about, and
  forgets none; its keys live under the prefix idemp:.
\<close>

lemma idempotency_check_answers:
  assumes "set_nx_client client keys"
    and "run_state (idempotency_Check (new_idempotency_store client ttl) ctx k) w = (Inr b, w')"
  shows "(b \<longleftrightarrow> ''idemp:'' @ k \<notin> keys w) \<and> ''idemp:'' @ k \<in> keys w' \<and> keys w \<subseteq> keys w'"
proof -
  obtain ttl' where "run_state (SetNX client ctx (''idemp:'' @ k) ''1'' ttl') w = (Inr b, w')"
    using assms(2) by (auto simp: idempotency_Check_def new_idempotency_store_def Let_def split: prod.splits sum.splits)
  then show ?thesis
    using set_nx_client.set_nx [OF assms(1)] keepsD [OF set_nx_client.set_nx_keeps [OF assms(1)]] by blast
qed

end
