(* ===== verification/Redis_Correct.thy ===== *)
theory Redis_Correct
  imports Redis_Memory Consumer_Correct
begin

section \<open>What the Redis adapters guarantee\<close>

text \<open>
  The two stores are the same store; what is added is what the consumer decodes; a read hands a
  message out once and never again. The last one is a contract between the client and the
  stores' users, as locales: from Redis's documented meaning of the id \<open>>\<close> to \<open>ReadGroup\<close>.
\<close>

subsection \<open>Reads are of new messages only\<close>

text \<open>
  \<open>delivered w stream group\<close> are the ids the server has handed out to the group. A read with the
  id \<open>>\<close> returns messages not delivered before, and counts them as delivered.
\<close>

locale new_only_client =
  fixes client :: "'w redis_client" and delivered :: "'w \<Rightarrow> string \<Rightarrow> string \<Rightarrow> string set"
  assumes read_new: "run_state (XReadGroup client ctx a) w = (Inr sts, w') \<Longrightarrow> XStreams a = [st, ''>''] \<Longrightarrow>
    x \<in> set sts \<Longrightarrow> m \<in> set (XMessages x) \<Longrightarrow>
    XID m \<notin> delivered w st (XGroup a) \<and> XID m \<in> delivered w' st (XGroup a)"

locale fresh_reads =
  fixes store :: "'w stream_store" and delivered :: "'w \<Rightarrow> string \<Rightarrow> string \<Rightarrow> string set"
  assumes read_fresh: "run_state (store_ReadGroup store ctx st g c n b) w = (Inr ms, w') \<Longrightarrow> m \<in> set ms \<Longrightarrow>
    MsgID m \<notin> delivered w st g \<and> MsgID m \<in> delivered w' st g"
begin

lemma never_read_twice:
  assumes "run_state (store_ReadGroup store ctx st g c n b) w = (Inr ms, w')" and "m \<in> set ms"
    and "delivered w' st g \<subseteq> delivered v st g"
    and "run_state (store_ReadGroup store ctx' st g c' n' b') v = (Inr ms', v')"
  shows "MsgID m \<notin> MsgID ` set ms'"
  using read_fresh [OF assms(1,2)] read_fresh [OF assms(4)] assms(3) by auto

end

lemma set_collect_messages:
  "m \<in> set (collect_messages sts) \<longleftrightarrow> (\<exists>x\<in>set sts. \<exists>y\<in>set (XMessages x). m = to_stream_message y)"
  by (induction sts rule: collect_messages.induct) auto

sublocale new_only_client \<subseteq> reads: fresh_reads "new_store client" delivered
proof
  fix ctx st g c n b w ms w' m
  assume "run_state (store_ReadGroup (new_store client) ctx st g c n b) w = (Inr ms, w')" and m: "m \<in> set ms"
  then obtain sts where r: "run_state (XReadGroup client ctx \<lparr>XGroup = g, XConsumer = c, XStreams = [st, ''>''],
      XCount = n, XBlock = block_duration b\<rparr>) w = (Inr sts, w')" "ms = collect_messages sts"
    by (auto simp: store_defs split: prod.splits sum.splits)
  then obtain x y where "x \<in> set sts" "y \<in> set (XMessages x)" "m = to_stream_message y"
    using m by (auto simp: set_collect_messages)
  with read_new [OF r(1)] show "MsgID m \<notin> delivered w st g \<and> MsgID m \<in> delivered w' st g"
    by (simp add: to_stream_message_def)
qed

context new_only_client
begin

lemma store_never_reads_twice:
  assumes "run_state (Store_ReadGroup client ctx st g c n b) w = (Inr ms, w')" and "m \<in> set ms"
    and "delivered w' st g \<subseteq> delivered v st g"
    and "run_state (Store_ReadGroup client ctx' st g c' n' b') v = (Inr ms', v')"
  shows "MsgID m \<notin> MsgID ` set ms'"
  using reads.never_read_twice [of ctx st g c n b w ms w' m v ctx' c' n' b' ms' v'] assms
  by (simp add: new_store_def)

end

text \<open>The in-memory server is such a client.\<close>

definition mem_delivered :: "redis_state \<Rightarrow> string \<Rightarrow> string \<Rightarrow> string set" where
  "mem_delivered w st g = (case s_groups (stream_of w st) g of None \<Rightarrow> {}
     | Some gr \<Rightarrow> {entry_id n | n. n \<le> g_last gr})"

lemma entry_id_inject: "entry_id m = entry_id n \<longleftrightarrow> m = n"
  unfolding entry_id_def by (metis append_same_eq read_show_nat)

lemma mem_delivered_add: "mem_delivered (snd (run_state (Store_Add mem_redis ctx st t) w)) = mem_delivered w"
  by (auto simp: fun_eq_iff mem_delivered_def Store_Add_def mem_redis_def mem_XAdd_def Let_def set_stream_def
      stream_of_def empty_stream_def split: sum.split option.split)

lemma set_take_count: "e \<in> set (take_count n es) \<Longrightarrow> e \<in> set es"
  by (auto simp: take_count_def dest: in_set_takeD split: if_split_asm)

lemma fold_max_start: "a \<le> fold max xs (a :: nat)"
proof (induction xs arbitrary: a)
  case (Cons x xs)
  from Cons.IH [of "max x a"] show ?case by simp
qed simp

lemma fold_max_ge: "x \<in> set xs \<Longrightarrow> x \<le> fold max xs (a :: nat)"
proof (induction xs arbitrary: a)
  case (Cons y xs)
  from Cons fold_max_start [of "max y a" xs] show ?case by (auto intro: order_trans)
qed simp

interpretation mem_reads: new_only_client mem_redis mem_delivered
proof
  fix ctx a w sts w' st x m
  assume run: "run_state (XReadGroup mem_redis ctx a) w = (Inr sts, w')" and st: "XStreams a = [st, ''>'']"
    and x: "x \<in> set sts" "m \<in> set (XMessages x)"
  let ?s = "stream_of w st"
  obtain g where g: "s_groups ?s (XGroup a) = Some g"
    using run st by (auto simp: mem_redis_def mem_XReadGroup_def Let_def split: option.splits)
  define es where "es = take_count (XCount a) (undelivered ?s g)"
  have sts: "sts = [\<lparr>XStream = st, XMessages = map to_xmessage es\<rparr>]"
    and w': "w' = set_stream st (?s\<lparr>s_groups := (s_groups ?s)(XGroup a \<mapsto>
      \<lparr>g_last = fold max (map fst es) (g_last g), g_pending = g_pending g @ map (entry_id \<circ> fst) es\<rparr>)\<rparr>) w"
    using run st g unfolding es_def
    by (auto simp: mem_redis_def mem_XReadGroup_def Let_def split: if_split_asm)
  from x sts obtain e where e: "e \<in> set es" "m = to_xmessage e" by auto
  then have "g_last g < fst e" using set_take_count [of e "XCount a" "undelivered ?s g"]
    by (auto simp: es_def undelivered_def)
  then have "XID m \<notin> mem_delivered w st (XGroup a)"
    using e(2) by (auto simp: mem_delivered_def g to_xmessage_def entry_id_inject)
  moreover have "XID m \<in> mem_delivered w' st (XGroup a)"
    using e fold_max_ge [of "fst e" "map fst es" "g_last g"]
    by (auto simp: mem_delivered_def w' set_stream_def stream_of_def to_xmessage_def)
  ultimately show "XID m \<notin> mem_delivered w st (XGroup a) \<and> XID m \<in> mem_delivered w' st (XGroup a)" ..
qed

subsection \<open>Properties\<close>

text \<open>
  C26: A message is delivered to a consumer group once. After ReadGroup returned a message to a
  consumer of the group, no later ReadGroup of the group returns it again, acknowledged or not: a
  message whose worker crashed, or whose write-back failed, stays pending for ever. (The server's
  part is the documented meaning of the id the read asks for.)
\<close>

theorem message_never_redelivered:
  assumes "new_only_client client delivered"
    and "run_state (Store_ReadGroup client ctx st g c n b) w = (Inr ms, w')" and "m \<in> set ms"
    and "delivered w' st g \<subseteq> delivered v st g"
    and "run_state (Store_ReadGroup client ctx' st g c' n' b') v = (Inr ms', v')"
  shows "MsgID m \<notin> MsgID ` set ms'"
  using new_only_client.store_never_reads_twice [OF assms(1-5)] .

text \<open>A group with one message to read, for the witness.\<close>

definition one_message :: redis_state where
  "one_message = snd (run_state (do {
     _ \<leftarrow> Store_CreateGroup mem_redis Background ''tasks'' ''workers'';
     Store_Add mem_redis Background ''tasks'' sample_task }) empty_redis)"

definition first_read :: "(error + stream_message list) \<times> redis_state" where
  "first_read = run_state (Store_ReadGroup mem_redis Background ''tasks'' ''workers'' ''node'' 10 GoOther) one_message"

definition second_read :: "(error + stream_message list) \<times> redis_state" where
  "second_read = run_state (do {
     _ \<leftarrow> Store_Add mem_redis Background ''tasks'' sample_task;
     Store_ReadGroup mem_redis Background ''tasks'' ''workers'' ''other'' 10 GoOther }) (snd first_read)"

theorem message_never_redelivered_witness:
  "\<exists>m ms ms'. fst first_read = Inr ms \<and> m \<in> set ms \<and> fst second_read = Inr ms' \<and> ms' \<noteq> [] \<and>
     MsgID m \<notin> MsgID ` set ms'"
proof -
  obtain d where d: "marshal sample_task = Inr d"
    using unmarshal_marshal [OF json_sample_task(1)] by blast
  let ?m = "\<lambda>n. to_stream_message (to_xmessage (n, [''payload'' \<mapsto> stored_value (GoBytes d)]))"
  let ?v = "snd (run_state (Store_Add mem_redis Background ''tasks'' sample_task) (snd first_read))"
  note run = first_read_def second_read_def one_message_def store_defs mem_redis_defs d Let_def
    empty_redis_def empty_stream_def undelivered_def take_count_def
  have 1: "fst first_read = Inr [?m 1]" and 2: "fst second_read = Inr [?m (Suc (Suc 0))]"
    by (simp_all add: run)
  have r1: "run_state (Store_ReadGroup mem_redis Background ''tasks'' ''workers'' ''node'' 10 GoOther) one_message =
      (Inr [?m 1], snd first_read)"
    using 1 unfolding first_read_def by (metis prod.collapse)
  have r2: "run_state (Store_ReadGroup mem_redis Background ''tasks'' ''workers'' ''other'' 10 GoOther) ?v =
      (Inr [?m (Suc (Suc 0))], snd second_read)"
    using 2 unfolding second_read_def by (cases "run_state (Store_Add mem_redis Background ''tasks'' sample_task) (snd first_read)")
      (simp, metis prod.collapse)
  have "mem_delivered (snd first_read) ''tasks'' ''workers'' \<subseteq> mem_delivered ?v ''tasks'' ''workers''"
    by (simp add: mem_delivered_add)
  from message_never_redelivered [OF mem_reads.new_only_client_axioms r1 _ this r2, of "?m 1"] 1 2
  show ?thesis by auto
qed

text \<open>
  What is added is what is decoded. For a task that JSON can carry, Add sends one field,
  payload, with the encoding of the task, and whenever a message comes back with those bytes as its
  payload, the consumer decodes it to the task, its payload compacted.
\<close>

lemma added_task_is_decoded:
  assumes "json_task t"
  shows "\<exists>data. (\<forall>client ctx st. Store_Add client ctx st t = XAdd client ctx st [''payload'' \<mapsto> GoBytes data]) \<and>
    (\<forall>msg. Values msg ''payload'' = Some (GoString data) \<longrightarrow>
       decoded msg = Some (t\<lparr>Payload := marshal_payload (Payload t)\<rparr>))"
  using unmarshal_marshal [OF assms]
  by (auto simp: Store_Add_def decoded_def payload_string_def normal_task_def)

end
