(* ===== verification/Transitions.thy ===== *)
theory Transitions
  imports Main
begin

section \<open>Transition systems: invariants and runs that end\<close>

text \<open>
  The interface the goroutine models are studied through. A system is a start predicate and a
  step relation; \<open>reachable\<close> are the states of its runs. \<open>safety\<close> lifts an invariant from steps
  to reachable states; \<open>shutdown\<close> adds a phase that is never left, in which every step of the program
  itself decreases a well-founded measure that the environment's steps keep, and some step of the
  program is possible until the final states: then a run in the phase has finitely many steps of the
  program, and, if the program is scheduled at all while it can move, comes to a final state.
\<close>

inductive reachable :: "('s \<Rightarrow> bool) \<Rightarrow> ('s \<Rightarrow> 's \<Rightarrow> bool) \<Rightarrow> 's \<Rightarrow> bool" for init step where
  initial: "init s \<Longrightarrow> reachable init step s"
| successor: "reachable init step s \<Longrightarrow> step s t \<Longrightarrow> reachable init step t"

lemma reachable_run: "step\<^sup>*\<^sup>* s t \<Longrightarrow> reachable init step s \<Longrightarrow> reachable init step t"
  by (induction rule: rtranclp_induct) (auto intro: successor)

text \<open>A run, as the list of the states after each step.\<close>

fun run_from :: "('s \<Rightarrow> 's \<Rightarrow> bool) \<Rightarrow> 's \<Rightarrow> 's list \<Rightarrow> bool" where
  "run_from step s [] = True"
| "run_from step s (t # ts) = (step s t \<and> run_from step t ts)"

lemma run_from_rtranclp: "run_from step s ts \<Longrightarrow> step\<^sup>*\<^sup>* s (last (s # ts))"
  by (induction ts arbitrary: s) (auto intro: converse_rtranclp_into_rtranclp)

text \<open>
  An endless run, and a fair one: whenever the program itself can move, it does so some time later.
\<close>

definition endless_run :: "('s \<Rightarrow> 's \<Rightarrow> bool) \<Rightarrow> (nat \<Rightarrow> 's) \<Rightarrow> bool" where
  "endless_run step f \<longleftrightarrow> (\<forall>i. step (f i) (f (Suc i)))"

definition fair_run :: "('s \<Rightarrow> 's \<Rightarrow> bool) \<Rightarrow> (nat \<Rightarrow> 's) \<Rightarrow> bool" where
  "fair_run own f \<longleftrightarrow> (\<forall>i. (\<exists>t. own (f i) t) \<longrightarrow> (\<exists>j\<ge>i. own (f j) (f (Suc j))))"

lemma endless_later: "endless_run step f \<Longrightarrow> endless_run step (\<lambda>i. f (i + n))"
  by (simp add: endless_run_def)

lemma fair_later:
  assumes "fair_run own f"
  shows "fair_run own (\<lambda>i. f (i + n))"
  unfolding fair_run_def
proof (intro allI impI)
  fix i assume "\<exists>t. own (f (i + n)) t"
  then obtain j where "i + n \<le> j" "own (f j) (f (Suc j))" using assms unfolding fair_run_def by blast
  then show "\<exists>j\<ge>i. own (f (j + n)) (f (Suc j + n))" by (intro exI [of _ "j - n"]) simp
qed

lemma rank_trans:
  fixes p q r :: "nat \<times> nat"
  shows "(p, q) \<in> less_than <*lex*> less_than \<Longrightarrow> (q, r) \<in> less_than <*lex*> less_than \<Longrightarrow> (p, r) \<in> less_than <*lex*> less_than"
  by (rule transD [OF trans_lex_prod [OF trans_less_than trans_less_than]])

locale safety =
  fixes init :: "'s \<Rightarrow> bool" and step :: "'s \<Rightarrow> 's \<Rightarrow> bool" and inv :: "'s \<Rightarrow> bool"
  assumes init_inv: "init s \<Longrightarrow> inv s"
    and step_inv: "inv s \<Longrightarrow> step s t \<Longrightarrow> inv t"
begin

lemma reachable_inv: "reachable init step s \<Longrightarrow> inv s"
  by (induction rule: reachable.induct) (auto intro: init_inv step_inv)

lemma run_inv: "step\<^sup>*\<^sup>* s t \<Longrightarrow> inv s \<Longrightarrow> inv t"
  by (induction rule: rtranclp_induct) (auto intro: step_inv)

end

text \<open>\<open>own\<close> are the steps of the program itself; the environment's steps are the others.\<close>

locale shutdown = safety init step inv
  for init :: "'s \<Rightarrow> bool" and step :: "'s \<Rightarrow> 's \<Rightarrow> bool" and inv :: "'s \<Rightarrow> bool" +
  fixes own :: "'s \<Rightarrow> 's \<Rightarrow> bool" and phase final :: "'s \<Rightarrow> bool" and rank :: "'s \<Rightarrow> nat \<times> nat"
  assumes own_step: "own s t \<Longrightarrow> step s t"
    and phase_stays: "inv s \<Longrightarrow> phase s \<Longrightarrow> own s t \<Longrightarrow> phase t"
    and rank_decreases: "inv s \<Longrightarrow> phase s \<Longrightarrow> own s t \<Longrightarrow> (rank t, rank s) \<in> less_than <*lex*> less_than"
    and others_keep: "inv s \<Longrightarrow> phase s \<Longrightarrow> step s t \<Longrightarrow> own s t \<or> phase t \<and> rank t = rank s"
    and progress: "inv s \<Longrightarrow> phase s \<Longrightarrow> \<not> final s \<Longrightarrow> \<exists>t. own s t"
begin

lemma own_keeps: "inv s \<Longrightarrow> phase s \<Longrightarrow> own\<^sup>*\<^sup>* s t \<Longrightarrow> inv t \<and> phase t"
  by (rotate_tac 2, induction rule: rtranclp_induct) (auto intro: step_inv own_step phase_stays)

lemma reaches_final: "inv s \<Longrightarrow> phase s \<Longrightarrow> \<exists>t. own\<^sup>*\<^sup>* s t \<and> final t"
proof (induction "rank s" arbitrary: s rule: wf_induct_rule [OF wf_lex_prod [OF wf_less_than wf_less_than]])
  case (1 s)
  show ?case
  proof (cases "final s")
    case False
    then obtain t where t: "own s t" using progress 1 by blast
    then have "\<exists>u. own\<^sup>*\<^sup>* t u \<and> final u"
      using 1 by (metis own_step phase_stays rank_decreases step_inv)
    with t show ?thesis by (meson converse_rtranclp_into_rtranclp)
  qed auto
qed

lemma run_stays:
  assumes "endless_run step f" and "inv (f 0)" and "phase (f 0)"
  shows "inv (f i) \<and> phase (f i)"
proof (induction i)
  case (Suc i)
  then show ?case
    using assms(1) step_inv [of "f i"] phase_stays [of "f i"] others_keep [of "f i"] unfolding endless_run_def by blast
qed (use assms in simp)

lemma rank_falls:
  assumes "endless_run step f" and "inv (f 0)" and "phase (f 0)"
  shows "i \<le> j \<Longrightarrow> rank (f j) = rank (f i) \<or> (rank (f j), rank (f i)) \<in> less_than <*lex*> less_than"
proof (induction j)
  case (Suc j)
  have "rank (f (Suc j)) = rank (f j) \<or> (rank (f (Suc j)), rank (f j)) \<in> less_than <*lex*> less_than"
    using run_stays [OF assms, of j] assms(1) rank_decreases others_keep unfolding endless_run_def by blast
  then show ?case using Suc rank_trans [of "rank (f (Suc j))" "rank (f j)" "rank (f i)"] unfolding le_Suc_eq by metis
qed simp

lemma finitely_many_own:
  assumes "endless_run step f" and "inv (f 0)" and "phase (f 0)"
  shows "\<exists>n. \<forall>i\<ge>n. \<not> own (f i) (f (Suc i))"
proof -
  have "\<exists>n. \<forall>i\<ge>n. \<not> own (f i) (f (Suc i))" if "r = rank (f k)" for r k
    using that
  proof (induction r arbitrary: k rule: wf_induct_rule [OF wf_lex_prod [OF wf_less_than wf_less_than]])
    case (1 r)
    show ?case
    proof (cases "\<exists>j\<ge>k. own (f j) (f (Suc j))")
      case True
      then obtain j where j: "k \<le> j" "own (f j) (f (Suc j))" by blast
      then have "(rank (f (Suc j)), rank (f j)) \<in> less_than <*lex*> less_than"
        using rank_decreases run_stays [OF assms, of j] by blast
      then have "(rank (f (Suc j)), r) \<in> less_than <*lex*> less_than"
        using rank_falls [OF assms j(1)] 1(2) rank_trans by metis
      then show ?thesis using 1(1) by blast
    qed blast
  qed
  then show ?thesis by blast
qed

text \<open>A fair run gets to the end; a run of the program alone is fair, so it cannot be endless.\<close>

lemma fair_run_ends:
  assumes "endless_run step f" and "inv (f 0)" and "phase (f 0)" and "fair_run own f"
  shows "\<exists>i. final (f i)"
proof -
  obtain n where n: "\<forall>i\<ge>n. \<not> own (f i) (f (Suc i))" using finitely_many_own [OF assms(1-3)] by blast
  have "\<not> (\<exists>t. own (f n) t)" using n assms(4) unfolding fair_run_def by blast
  then show ?thesis using progress run_stays [OF assms(1-3), of n] by blast
qed

lemma no_endless_run:
  assumes "inv (f 0)" and "phase (f 0)"
  shows "\<not> (\<forall>i. own (f i) (f (Suc i)))"
  using finitely_many_own [of f] own_step assms unfolding endless_run_def by blast

lemma ends:
  assumes "inv s" and "phase s"
  shows "(\<exists>t. own\<^sup>*\<^sup>* s t \<and> final t) \<and> \<not> (\<exists>f. f 0 = s \<and> (\<forall>i. own (f i) (f (Suc i)))) \<and>
    \<not> (\<exists>f. f 0 = s \<and> endless_run step f \<and> fair_run own f \<and> (\<forall>i. \<not> final (f i)))"
  using reaches_final [OF assms] no_endless_run fair_run_ends assms by blast

end

end
