(* ===== verification/Worker_Pool.thy ===== *)
theory Worker_Pool
  imports Consumer Transitions "HOL-Library.Multiset"
begin

section \<open>A fetcher, a buffered channel and a pool of workers\<close>

text \<open>
  \<open>Consumer.Start\<close> and \<open>PriorityConsumer.Start\<close> start the same kind of system: a fetcher goroutine
  that puts messages into a buffered channel and closes it on the way out, and workers that range
  over the channel. This theory has what the two share: the state, the workers' steps, the
  environment's steps, the contract of a fetcher as a locale, and what follows from it. The two
  fetchers are in \<open>Consumer_Pool\<close> and \<open>Priority_Consumer\<close>.

  A step is what a goroutine does between two points where another can be scheduled: a \<open>select\<close>,
  a channel operation, the return of a blocking call. A worker's handler runs as one step, on the
  outside state of that moment; between any two steps the outside state may change in any way,
  which stands for Redis's other clients. Where several goroutines can move, or both cases of a
  \<open>select\<close> are ready, all continuations are steps.

  The last five fields are history: what \<open>ReadGroup\<close> returned so far, what workers took from the
  channel, what they finished, the messages on which a worker crashed, and what the fetcher
  still held when it gave up at shutdown.
\<close>

datatype worker = WWaiting | WBusy stream_message | WReturned | WDead

record ('f, 'w) pool =
  po_fetcher :: 'f
  po_chan :: "stream_message list"
  po_closed :: bool
  po_workers :: "worker list"
  po_cancelled :: bool
  po_world :: 'w
  po_fetched :: "stream_message list"
  po_taken :: "stream_message list"
  po_finished :: "stream_message list"
  po_crashed :: "stream_message list"
  po_dropped :: "stream_message list"

text \<open>
  \<open>make(chan task.StreamMessage, n)\<close> panics for a negative \<open>n\<close>, and for a buffer beyond the address
  space (24 bytes per message, 2 to the 48 bytes less the channel's header).
\<close>

definition chan_allowed :: "int \<Rightarrow> bool" where
  "chan_allowed n \<longleftrightarrow> 0 \<le> n \<and> 24 * n \<le> 2 ^ 48 - 96"

definition started_pool :: "'f \<Rightarrow> int64 \<Rightarrow> 'w \<Rightarrow> ('f, 'w) pool" where
  "started_pool f workerCount w =
     \<lparr>po_fetcher = f, po_chan = [], po_closed = False,
      po_workers = replicate (nat (sint workerCount)) WWaiting, po_cancelled = False,
      po_world = w, po_fetched = [], po_taken = [], po_finished = [], po_crashed = [], po_dropped = []\<rparr>"

text \<open>What \<open>Start\<close> comes to before it waits for its goroutines.\<close>

datatype ('f, 'w) start = StartFailed error | StartPanicked | Started "('f, 'w) pool"

definition set_worker :: "nat \<Rightarrow> worker \<Rightarrow> ('f, 'w) pool \<Rightarrow> ('f, 'w) pool" where
  "set_worker i x s = s\<lparr>po_workers := (po_workers s)[i := x]\<rparr>"

text \<open>
  Worker \<open>i\<close> (the code counts from 1), with the body of its loop. A panic of the body ends the
  worker: the deferred function recovers it and returns.
\<close>

type_synonym 'w body = "int \<Rightarrow> stream_message \<Rightarrow> ('w, outcome) state"

inductive worker_step :: "'w body \<Rightarrow> nat \<Rightarrow> ('f, 'w) pool \<Rightarrow> ('f, 'w) pool \<Rightarrow> bool" for body i where
  worker_takes: "i < length (po_workers s) \<Longrightarrow> po_workers s ! i = WWaiting \<Longrightarrow> po_chan s = m # ch \<Longrightarrow>
    worker_step body i s (set_worker i (WBusy m) (s\<lparr>po_chan := ch, po_taken := po_taken s @ [m]\<rparr>))"
| worker_finishes: "i < length (po_workers s) \<Longrightarrow> po_workers s ! i = WBusy m \<Longrightarrow>
    run_state (body (int i + 1) m) (po_world s) = (Finished, w') \<Longrightarrow>
    worker_step body i s (set_worker i WWaiting (s\<lparr>po_world := w', po_finished := po_finished s @ [m]\<rparr>))"
| worker_crashes: "i < length (po_workers s) \<Longrightarrow> po_workers s ! i = WBusy m \<Longrightarrow>
    run_state (body (int i + 1) m) (po_world s) = (Crashed, w') \<Longrightarrow>
    worker_step body i s (set_worker i WDead (s\<lparr>po_world := w', po_crashed := po_crashed s @ [m]\<rparr>))"
| worker_returns: "i < length (po_workers s) \<Longrightarrow> po_workers s ! i = WWaiting \<Longrightarrow> po_chan s = [] \<Longrightarrow> po_closed s \<Longrightarrow>
    worker_step body i s (set_worker i WReturned s)"

inductive_cases worker_stepE: "worker_step body i s t"

text \<open>The environment: the shutdown signal, and whatever else touches the outside state.\<close>

inductive env_step :: "('f, 'w) pool \<Rightarrow> ('f, 'w) pool \<Rightarrow> bool" where
  env_cancels: "env_step s (s\<lparr>po_cancelled := True\<rparr>)"
| env_acts: "env_step s (s\<lparr>po_world := w'\<rparr>)"

inductive_cases env_stepE: "env_step s t"

definition own_step :: "(('f, 'w) pool \<Rightarrow> ('f, 'w) pool \<Rightarrow> bool) \<Rightarrow> 'w body \<Rightarrow> ('f, 'w) pool \<Rightarrow> ('f, 'w) pool \<Rightarrow> bool" where
  "own_step fstep body s t \<longleftrightarrow> fstep s t \<or> (\<exists>i. worker_step body i s t)"

definition any_step :: "(('f, 'w) pool \<Rightarrow> ('f, 'w) pool \<Rightarrow> bool) \<Rightarrow> 'w body \<Rightarrow> ('f, 'w) pool \<Rightarrow> ('f, 'w) pool \<Rightarrow> bool" where
  "any_step fstep body s t \<longleftrightarrow> own_step fstep body s t \<or> env_step s t"

lemma fetch_any: "fstep s t \<Longrightarrow> any_step fstep body s t"
  by (simp add: any_step_def own_step_def)

lemma worker_any: "worker_step body i s t \<Longrightarrow> any_step fstep body s t"
  unfolding any_step_def own_step_def by blast

lemma env_any: "env_step s t \<Longrightarrow> any_step fstep body s t"
  by (simp add: any_step_def)

text \<open>\<open>wg.Wait\<close> lets \<open>Start\<close> return when the fetcher and all workers are done.\<close>

definition all_returned :: "('f \<Rightarrow> bool) \<Rightarrow> ('f, 'w) pool \<Rightarrow> bool" where
  "all_returned stopped s \<longleftrightarrow> stopped (po_fetcher s) \<and> list_all (\<lambda>x. x = WReturned \<or> x = WDead) (po_workers s)"

definition all_dead :: "('f, 'w) pool \<Rightarrow> bool" where
  "all_dead s \<longleftrightarrow> list_all (\<lambda>x. x = WDead) (po_workers s)"

text \<open>The messages in workers' hands.\<close>

fun busy :: "worker list \<Rightarrow> stream_message multiset" where
  "busy [] = {#}"
| "busy (WBusy m # xs) = {#m#} + busy xs"
| "busy (_ # xs) = busy xs"

lemma busy_Cons: "busy (x # xs) = busy [x] + busy xs"
  by (cases x) auto

lemma busy_update: "i < length xs \<Longrightarrow> busy (xs[i := x]) + busy [xs ! i] = busy xs + busy [x]"
proof (induction xs arbitrary: i)
  case (Cons y xs)
  show ?case
  proof (cases i)
    case 0
    then show ?thesis
      by (simp only: list_update_code nth_Cons_0 busy_Cons [of x xs] busy_Cons [of y xs] ac_simps)
  next
    case (Suc n)
    then have "busy (xs[n := x]) + busy [xs ! n] = busy xs + busy [x]" using Cons by simp
    then show ?thesis
      unfolding Suc
      by (simp only: list_update_code nth_Cons_Suc busy_Cons [of y xs] busy_Cons [of y "xs[n := x]"] add.assoc)
  qed
qed simp

lemma dead_update:
  "i < length xs \<Longrightarrow> count (mset (xs[i := x])) WDead =
     count (mset xs) WDead - (if xs ! i = WDead then 1 else 0) + (if x = WDead then 1 else 0)"
  by (simp add: mset_update)

lemma busy_waiting: "busy (replicate n WWaiting) = {#}"
  by (induction n) auto

lemma busy_gone: "set xs \<subseteq> {WReturned, WDead} \<Longrightarrow> busy xs = {#}"
  by (induction xs rule: busy.induct) auto

fun worker_weight :: "worker \<Rightarrow> nat" where
  "worker_weight (WBusy _) = 2"
| "worker_weight WWaiting = 1"
| "worker_weight _ = 0"

lemma weight_update:
  "i < length xs \<Longrightarrow> sum_list (map worker_weight (xs[i := x])) + worker_weight (xs ! i) =
     sum_list (map worker_weight xs) + worker_weight x"
proof (induction xs arbitrary: i)
  case (Cons y xs)
  then show ?case by (cases i) auto
qed simp

subsection \<open>The contract of a fetcher\<close>

text \<open>
  What a step of a fetcher may do to the pool: move on, take in what a read returned, send the
  first message it holds into a channel with room, or, once the context is cancelled, return,
  closing the channel and dropping what it holds.
\<close>

inductive fetch_effect :: "('f \<Rightarrow> stream_message list) \<Rightarrow> ('f \<Rightarrow> bool) \<Rightarrow> int \<Rightarrow> ('f, 'w) pool \<Rightarrow> ('f, 'w) pool \<Rightarrow> bool"
  for in_hand stopped cap where
  fx_moves: "\<not> stopped (po_fetcher s) \<Longrightarrow> \<not> stopped f \<Longrightarrow> in_hand f = in_hand (po_fetcher s) \<Longrightarrow>
    fetch_effect in_hand stopped cap s (s\<lparr>po_fetcher := f, po_world := w\<rparr>)"
| fx_gets: "\<not> stopped (po_fetcher s) \<Longrightarrow> \<not> stopped f \<Longrightarrow> in_hand (po_fetcher s) = [] \<Longrightarrow> in_hand f = ms \<Longrightarrow>
    fetch_effect in_hand stopped cap s (s\<lparr>po_fetcher := f, po_world := w, po_fetched := po_fetched s @ ms\<rparr>)"
| fx_sends: "\<not> stopped (po_fetcher s) \<Longrightarrow> \<not> stopped f \<Longrightarrow> in_hand (po_fetcher s) = m # in_hand f \<Longrightarrow>
    int (length (po_chan s)) < cap \<Longrightarrow>
    fetch_effect in_hand stopped cap s (s\<lparr>po_fetcher := f, po_chan := po_chan s @ [m]\<rparr>)"
| fx_returns: "\<not> stopped (po_fetcher s) \<Longrightarrow> stopped f \<Longrightarrow> in_hand f = [] \<Longrightarrow> po_cancelled s \<Longrightarrow>
    fetch_effect in_hand stopped cap s (s\<lparr>po_fetcher := f, po_closed := True, po_world := w,
      po_dropped := po_dropped s @ in_hand (po_fetcher s)\<rparr>)"

inductive_cases fetch_effectE: "fetch_effect in_hand stopped cap s t"

definition pool_inv :: "('f \<Rightarrow> stream_message list) \<Rightarrow> ('f \<Rightarrow> bool) \<Rightarrow> int \<Rightarrow> nat \<Rightarrow> ('f, 'w) pool \<Rightarrow> bool" where
  "pool_inv in_hand stopped cap n s \<longleftrightarrow>
     int (length (po_chan s)) \<le> cap \<and>
     length (po_workers s) = n \<and>
     (po_closed s \<longleftrightarrow> stopped (po_fetcher s)) \<and>
     (po_closed s \<longrightarrow> po_cancelled s) \<and>
     (po_dropped s \<noteq> [] \<longrightarrow> stopped (po_fetcher s)) \<and>
     po_fetched s = po_taken s @ po_chan s @ in_hand (po_fetcher s) @ po_dropped s \<and>
     mset (po_taken s) = mset (po_finished s) + mset (po_crashed s) + busy (po_workers s) \<and>
     count (mset (po_workers s)) WDead = length (po_crashed s) \<and>
     (WReturned \<in> set (po_workers s) \<longrightarrow> po_closed s \<and> po_chan s = [])"

lemma fetch_effect_inv:
  "fetch_effect in_hand stopped cap s t \<Longrightarrow> pool_inv in_hand stopped cap n s \<Longrightarrow> pool_inv in_hand stopped cap n t"
  by (erule fetch_effectE) (auto simp: pool_inv_def)

lemma worker_step_inv:
  assumes "worker_step body i s t" and "pool_inv in_hand stopped cap n s"
  shows "pool_inv in_hand stopped cap n t"
  using assms(1)
proof cases
  case (worker_takes m ch)
  have "busy ((po_workers s)[i := WBusy m]) = busy (po_workers s) + {#m#}"
    using busy_update [OF worker_takes(2), of "WBusy m"] worker_takes(3) by simp
  with worker_takes assms(2) show ?thesis
    by (auto simp: pool_inv_def set_worker_def dead_update dest: set_update_subset_insert [THEN subsetD])
next
  case (worker_finishes m w')
  have "busy ((po_workers s)[i := WWaiting]) + {#m#} = busy (po_workers s)"
    using busy_update [OF worker_finishes(2), of WWaiting] worker_finishes(3) by simp
  with worker_finishes assms(2) show ?thesis
    by (auto simp: pool_inv_def set_worker_def dead_update ac_simps dest: set_update_subset_insert [THEN subsetD])
next
  case (worker_crashes m w')
  have "busy ((po_workers s)[i := WDead]) + {#m#} = busy (po_workers s)"
    using busy_update [OF worker_crashes(2), of WDead] worker_crashes(3) by simp
  with worker_crashes assms(2) show ?thesis
    by (auto simp: pool_inv_def set_worker_def dead_update ac_simps dest: set_update_subset_insert [THEN subsetD])
next
  case worker_returns
  have "busy ((po_workers s)[i := WReturned]) = busy (po_workers s)"
    using busy_update [OF worker_returns(2), of WReturned] worker_returns(3) by simp
  with worker_returns assms(2) show ?thesis
    by (auto simp: pool_inv_def set_worker_def dead_update)
qed

lemma env_step_inv: "env_step s t \<Longrightarrow> pool_inv in_hand stopped cap n s \<Longrightarrow> pool_inv in_hand stopped cap n t"
  by (erule env_stepE) (auto simp: pool_inv_def)

definition pool_rank :: "('f \<Rightarrow> stream_message list) \<Rightarrow> ('f \<Rightarrow> nat) \<Rightarrow> ('f, 'w) pool \<Rightarrow> nat \<times> nat" where
  "pool_rank in_hand frank s = (frank (po_fetcher s),
     3 * length (in_hand (po_fetcher s)) + 2 * length (po_chan s) + sum_list (map worker_weight (po_workers s)))"

lemma worker_step_rank:
  assumes "worker_step body i s t"
  shows "(pool_rank in_hand frank t, pool_rank in_hand frank s) \<in> less_than <*lex*> less_than"
  using assms
proof cases
  case (worker_takes m ch)
  then show ?thesis using weight_update [of i "po_workers s" "WBusy m"] by (simp add: pool_rank_def set_worker_def)
next
  case (worker_finishes m w')
  then show ?thesis using weight_update [of i "po_workers s" WWaiting] by (simp add: pool_rank_def set_worker_def)
next
  case (worker_crashes m w')
  then show ?thesis using weight_update [of i "po_workers s" WDead] by (simp add: pool_rank_def set_worker_def)
next
  case worker_returns
  then show ?thesis using weight_update [of i "po_workers s" WReturned] by (simp add: pool_rank_def set_worker_def)
qed

lemma worker_progress:
  assumes "po_closed s" and "i < length (po_workers s)" and "po_workers s ! i \<noteq> WReturned" and "po_workers s ! i \<noteq> WDead"
  shows "\<exists>t. worker_step body i s t"
proof (cases "po_workers s ! i")
  case WWaiting
  with assms show ?thesis by (cases "po_chan s") (blast intro: worker_step.intros)+
next
  case (WBusy m)
  obtain r w' where "run_state (body (int i + 1) m) (po_world s) = (r, w')" by fastforce
  with WBusy assms show ?thesis by (cases r) (blast intro: worker_step.intros)+
qed (use assms in simp_all)

text \<open>
  A fetcher keeps the contract, never gets stuck once the context is cancelled, and from then on
  each of its steps either lowers its own rank or sends a message it holds.
\<close>

locale worker_pool =
  fixes init :: "('f, 'w) pool \<Rightarrow> bool" and fstep :: "('f, 'w) pool \<Rightarrow> ('f, 'w) pool \<Rightarrow> bool" and body :: "'w body"
    and in_hand :: "'f \<Rightarrow> stream_message list" and stopped :: "'f \<Rightarrow> bool" and cap :: int and workers :: int64
    and frank :: "'f \<Rightarrow> nat"
  assumes init_started: "init s \<Longrightarrow> 0 \<le> cap \<and> (\<exists>f w. \<not> stopped f \<and> in_hand f = [] \<and> s = started_pool f workers w)"
    and fetch_contract: "fstep s t \<Longrightarrow> fetch_effect in_hand stopped cap s t"
    and fetch_progress: "po_cancelled s \<Longrightarrow> \<not> stopped (po_fetcher s) \<Longrightarrow> \<exists>t. fstep s t"
    and fetch_rank: "fstep s t \<Longrightarrow> po_cancelled s \<Longrightarrow> frank (po_fetcher t) < frank (po_fetcher s) \<or>
      frank (po_fetcher t) = frank (po_fetcher s) \<and>
      3 * length (in_hand (po_fetcher t)) + 2 * length (po_chan t) < 3 * length (in_hand (po_fetcher s)) + 2 * length (po_chan s)"
begin

abbreviation pinv :: "('f, 'w) pool \<Rightarrow> bool" where
  "pinv \<equiv> pool_inv in_hand stopped cap (nat (sint workers))"

lemma pool_start_inv: "init s \<Longrightarrow> pinv s"
  by (drule init_started) (auto simp: started_pool_def pool_inv_def busy_waiting)

lemma any_step_inv: "pinv s \<Longrightarrow> any_step fstep body s t \<Longrightarrow> pinv t"
  by (auto simp: any_step_def own_step_def intro: fetch_effect_inv [OF fetch_contract] worker_step_inv env_step_inv)

lemma own_keeps_cancelled: "own_step fstep body s t \<Longrightarrow> po_cancelled s \<Longrightarrow> po_cancelled t"
  by (auto simp: own_step_def set_worker_def elim!: worker_stepE dest!: fetch_contract elim: fetch_effectE)

lemma fetch_keeps_workers: "fstep s t \<Longrightarrow> po_workers t = po_workers s"
  by (auto dest!: fetch_contract elim: fetch_effectE)

lemma own_step_rank:
  assumes "own_step fstep body s t" and "po_cancelled s"
  shows "(pool_rank in_hand frank t, pool_rank in_hand frank s) \<in> less_than <*lex*> less_than"
  using assms fetch_rank [of s t] fetch_keeps_workers [of s t] worker_step_rank [of body _ s t in_hand frank]
  by (auto simp: own_step_def pool_rank_def)

lemma own_progress:
  assumes "pinv s" and "po_cancelled s" and "\<not> all_returned stopped s"
  shows "\<exists>t. own_step fstep body s t"
proof (cases "stopped (po_fetcher s)")
  case True
  then obtain i where "i < length (po_workers s)" "po_workers s ! i \<noteq> WReturned" "po_workers s ! i \<noteq> WDead"
    using assms(3) by (auto simp: all_returned_def list_all_length)
  moreover have "po_closed s" using True assms(1) by (simp add: pool_inv_def)
  ultimately show ?thesis using worker_progress [of s i body] by (auto simp: own_step_def)
next
  case False
  then show ?thesis using fetch_progress [OF assms(2)] by (auto simp: own_step_def)
qed

lemma all_dead_step:
  assumes "any_step fstep body s t" and "all_dead s"
  shows "all_dead t \<and> po_taken t = po_taken s \<and> po_finished t = po_finished s"
proof -
  have "\<not> worker_step body i s t" for i
    using assms(2) by (auto simp: all_dead_def list_all_length elim!: worker_stepE)
  then consider "fetch_effect in_hand stopped cap s t" | "env_step s t"
    using assms(1) fetch_contract by (auto simp: any_step_def own_step_def)
  then show ?thesis
    by cases (use assms(2) in \<open>auto simp: all_dead_def elim!: fetch_effectE env_stepE\<close>)
qed

lemma all_dead_run:
  "(any_step fstep body)\<^sup>*\<^sup>* s t \<Longrightarrow> all_dead s \<Longrightarrow> all_dead t \<and> po_taken t = po_taken s \<and> po_finished t = po_finished s"
  by (induction rule: rtranclp_induct) (auto dest: all_dead_step)

lemma returned_pool:
  assumes "pinv s" and "all_returned stopped s" and "po_crashed s = []"
  shows "mset (po_fetched s) = mset (po_finished s) + mset (po_chan s) + mset (in_hand (po_fetcher s)) + mset (po_dropped s)"
    and "0 < sint workers \<Longrightarrow> po_chan s = []"
proof -
  have ws: "set (po_workers s) \<subseteq> {WReturned, WDead}" and dead: "WDead \<notin> set (po_workers s)"
    using assms by (auto simp: all_returned_def list_all_iff pool_inv_def count_eq_zero_iff)
  with assms show "mset (po_fetched s) = mset (po_finished s) + mset (po_chan s) + mset (in_hand (po_fetcher s)) + mset (po_dropped s)"
    by (simp add: pool_inv_def busy_gone)
  assume "0 < sint workers"
  then have "po_workers s \<noteq> []" using assms(1) by (auto simp: pool_inv_def)
  then have "WReturned \<in> set (po_workers s)" using ws dead by (cases "po_workers s") auto
  then show "po_chan s = []" using assms(1) by (simp add: pool_inv_def)
qed

lemma dead_count: "pinv s \<Longrightarrow> length (filter (\<lambda>x. x = WDead) (po_workers s)) = length (po_crashed s)"
proof -
  assume "pinv s"
  then have "count (mset (po_workers s)) WDead = length (po_crashed s)" by (simp add: pool_inv_def)
  moreover have "(\<lambda>x. x = WDead) = (=) WDead" by auto
  ultimately show ?thesis by (simp only: count_mset count_list_eq_length_filter)
qed

lemma closed_fetcher: "po_closed s \<Longrightarrow> pinv s \<Longrightarrow> \<not> fstep s t"
  by (auto simp: pool_inv_def dest!: fetch_contract elim!: fetch_effectE)

end

sublocale worker_pool \<subseteq> shutdown init "any_step fstep body" "pool_inv in_hand stopped cap (nat (sint workers))"
    "own_step fstep body" po_cancelled "all_returned stopped" "pool_rank in_hand frank"
proof unfold_locales
  show "own_step fstep body s t \<Longrightarrow> any_step fstep body s t" for s t by (simp add: any_step_def)
  show "any_step fstep body s t \<Longrightarrow> po_cancelled s \<Longrightarrow>
      own_step fstep body s t \<or> po_cancelled t \<and> pool_rank in_hand frank t = pool_rank in_hand frank s" for s t
    by (auto simp: any_step_def pool_rank_def elim!: env_stepE)
qed (auto intro: pool_start_inv any_step_inv own_keeps_cancelled own_progress dest: own_step_rank)

end
