(* ===== verification/Consumer_Pool.thy ===== *)
theory Consumer_Pool
  imports Worker_Pool
begin

section \<open>The consumer's goroutines\<close>

text \<open>
  \<open>consumer/consumer.go\<close>: \<open>Start\<close>, the fetcher (\<open>fetchTasks\<close>) as a step relation, and the body of
  a worker's loop (\<open>worker\<close>). The fetcher meets the contract of \<open>worker_pool\<close>.
\<close>

datatype fetcher = FLoop | FReading | FDispatch "stream_message list" | FSleep | FReturned

type_synonym 'w consumer_pool = "(fetcher, 'w) pool"

text \<open>The channel's size, \<open>c.workerCount*10\<close>: the product wraps around.\<close>

definition chan_cap :: "'w consumer \<Rightarrow> int" where
  "chan_cap c = sint (c_workerCount c * 10)"

definition Start :: "'w consumer \<Rightarrow> 'w \<Rightarrow> (fetcher, 'w) start" where
  "Start c w =
     (case run_state (store_CreateGroup (c_store c) MainCtx (c_stream c) (c_group c)) w of
        (Some err, w') \<Rightarrow> StartFailed (''failed to create consumer group: '' @ err)
      | (None, w') \<Rightarrow>
          (if \<not> chan_allowed (chan_cap c) then StartPanicked
           else Started (started_pool FLoop (c_workerCount c) w')))"

text \<open>The body of a worker's loop: a panic is counted by the deferred function.\<close>

definition worker_body :: "'w runtime \<Rightarrow> 'w consumer \<Rightarrow> 'w body" where
  "worker_body rt c workerID msg = do {
     oc \<leftarrow> process_message rt c Background workerID msg;
     (case oc of
        Finished \<Rightarrow> State_Monad.return Finished
      | Crashed \<Rightarrow> do { _ \<leftarrow> rt_inc rt WorkerPanicsTotal; State_Monad.return Crashed })
   }"

text \<open>\<open>ReadGroup\<close> as the fetcher calls it, and the end of the fetcher with its deferred \<open>close\<close>.\<close>

definition fetch :: "'w consumer \<Rightarrow> 'w \<Rightarrow> (error + stream_message list) \<times> 'w" where
  "fetch c = run_state (store_ReadGroup (c_store c) MainCtx (c_stream c) (c_group c) (c_consumer c)
     (c_fetchBatchSize c) (GoDuration (c_blockTimeout c)))"

definition fetcher_returns :: "'w consumer_pool \<Rightarrow> 'w consumer_pool" where
  "fetcher_returns s = s\<lparr>po_fetcher := FReturned, po_closed := True\<rparr>"

inductive fetch_step :: "'w consumer \<Rightarrow> 'w consumer_pool \<Rightarrow> 'w consumer_pool \<Rightarrow> bool" for c where
  fetch_stops: "po_fetcher s = FLoop \<Longrightarrow> po_cancelled s \<Longrightarrow> fetch_step c s (fetcher_returns s)"
| fetch_reads: "po_fetcher s = FLoop \<Longrightarrow> \<not> po_cancelled s \<Longrightarrow> fetch_step c s (s\<lparr>po_fetcher := FReading\<rparr>)"
| fetch_got: "po_fetcher s = FReading \<Longrightarrow> fetch c (po_world s) = (Inr ms, w') \<Longrightarrow>
    fetch_step c s (s\<lparr>po_fetcher := FDispatch ms, po_world := w', po_fetched := po_fetched s @ ms\<rparr>)"
| fetch_failed_cancelled: "po_fetcher s = FReading \<Longrightarrow> fetch c (po_world s) = (Inl err, w') \<Longrightarrow>
    po_cancelled s \<Longrightarrow> fetch_step c s (fetcher_returns (s\<lparr>po_world := w'\<rparr>))"
| fetch_failed: "po_fetcher s = FReading \<Longrightarrow> fetch c (po_world s) = (Inl err, w') \<Longrightarrow>
    \<not> po_cancelled s \<Longrightarrow> fetch_step c s (s\<lparr>po_fetcher := FSleep, po_world := w'\<rparr>)"
| fetch_wakes: "po_fetcher s = FSleep \<Longrightarrow> fetch_step c s (s\<lparr>po_fetcher := FLoop\<rparr>)"
| fetch_sends: "po_fetcher s = FDispatch (m # ms) \<Longrightarrow> int (length (po_chan s)) < chan_cap c \<Longrightarrow>
    fetch_step c s (s\<lparr>po_fetcher := FDispatch ms, po_chan := po_chan s @ [m]\<rparr>)"
| fetch_abandons: "po_fetcher s = FDispatch (m # ms) \<Longrightarrow> po_cancelled s \<Longrightarrow>
    fetch_step c s (fetcher_returns (s\<lparr>po_dropped := po_dropped s @ m # ms\<rparr>))"
| fetch_dispatched: "po_fetcher s = FDispatch [] \<Longrightarrow> fetch_step c s (s\<lparr>po_fetcher := FLoop\<rparr>)"

inductive_cases fetch_stepE: "fetch_step c s t"

definition pool_init :: "'w consumer \<Rightarrow> 'w consumer_pool \<Rightarrow> bool" where
  "pool_init c s \<longleftrightarrow> (\<exists>w. Start c w = Started s)"

abbreviation consumer_step :: "'w runtime \<Rightarrow> 'w consumer \<Rightarrow> 'w consumer_pool \<Rightarrow> 'w consumer_pool \<Rightarrow> bool" where
  "consumer_step rt c \<equiv> any_step (fetch_step c) (worker_body rt c)"

subsection \<open>The fetcher meets its contract\<close>

fun in_hand :: "fetcher \<Rightarrow> stream_message list" where
  "in_hand (FDispatch ms) = ms"
| "in_hand _ = []"

fun fetcher_rank :: "fetcher \<Rightarrow> nat" where
  "fetcher_rank FReading = 4"
| "fetcher_rank (FDispatch _) = 3"
| "fetcher_rank FSleep = 2"
| "fetcher_rank FLoop = 1"
| "fetcher_rank FReturned = 0"

lemma Start_started:
  "Start c w = Started s \<longleftrightarrow> (\<exists>w'. run_state (store_CreateGroup (c_store c) MainCtx (c_stream c) (c_group c)) w = (None, w') \<and>
     chan_allowed (chan_cap c) \<and> s = started_pool FLoop (c_workerCount c) w')"
  by (auto simp: Start_def split: prod.split option.split)

lemma fetcher_progress:
  assumes "po_cancelled s" and "po_fetcher s \<noteq> FReturned"
  shows "\<exists>t. fetch_step c s t"
proof (cases "po_fetcher s")
  case FReading
  obtain r w' where "fetch c (po_world s) = (r, w')" by fastforce
  with FReading assms show ?thesis by (cases r) (blast intro: fetch_step.intros)+
next
  case (FDispatch ms)
  with assms show ?thesis by (cases ms) (blast intro: fetch_step.intros)+
qed (use assms in \<open>blast intro: fetch_step.intros\<close>)+

lemma fetch_step_effect:
  assumes "fetch_step c s t"
  shows "fetch_effect in_hand (\<lambda>f. f = FReturned) (chan_cap c) s t"
  using assms
proof cases
  case fetch_stops
  then show ?thesis
    using fx_returns [of "\<lambda>f. f = FReturned" s FReturned in_hand "chan_cap c" "po_world s"]
    by (cases s) (simp add: fetcher_returns_def)
next
  case fetch_reads
  then show ?thesis using fx_moves [of "\<lambda>f. f = FReturned" s FReading in_hand "chan_cap c" "po_world s"] by simp
next
  case (fetch_got ms w')
  then show ?thesis using fx_gets [of "\<lambda>f. f = FReturned" s "FDispatch ms" in_hand ms "chan_cap c" w'] by simp
next
  case (fetch_failed_cancelled err w')
  then show ?thesis
    using fx_returns [of "\<lambda>f. f = FReturned" s FReturned in_hand "chan_cap c" w'] by (cases s) (simp add: fetcher_returns_def)
next
  case (fetch_failed err w')
  then show ?thesis using fx_moves [of "\<lambda>f. f = FReturned" s FSleep in_hand "chan_cap c" w'] by simp
next
  case fetch_wakes
  then show ?thesis using fx_moves [of "\<lambda>f. f = FReturned" s FLoop in_hand "chan_cap c" "po_world s"] by simp
next
  case (fetch_sends m ms)
  then show ?thesis using fx_sends [of "\<lambda>f. f = FReturned" s "FDispatch ms" in_hand m "chan_cap c"] by simp
next
  case (fetch_abandons m ms)
  then show ?thesis
    using fx_returns [of "\<lambda>f. f = FReturned" s FReturned in_hand "chan_cap c" "po_world s"]
    by (cases s) (simp add: fetcher_returns_def)
next
  case fetch_dispatched
  then show ?thesis using fx_moves [of "\<lambda>f. f = FReturned" s FLoop in_hand "chan_cap c" "po_world s"] by simp
qed

interpretation pool: worker_pool "pool_init c" "fetch_step c" "worker_body rt c" in_hand "\<lambda>f. f = FReturned" "chan_cap c"
    "c_workerCount c" fetcher_rank
  for rt c
proof
  show "pool_init c s \<Longrightarrow> 0 \<le> chan_cap c \<and>
      (\<exists>f w. f \<noteq> FReturned \<and> in_hand f = [] \<and> s = started_pool f (c_workerCount c) w)" for s
    by (auto simp: pool_init_def Start_started chan_allowed_def intro: exI [of _ FLoop])
  show "fetch_step c s t \<Longrightarrow> fetch_effect in_hand (\<lambda>f. f = FReturned) (chan_cap c) s t" for s t
    by (rule fetch_step_effect)
  show "po_cancelled s \<Longrightarrow> po_fetcher s \<noteq> FReturned \<Longrightarrow> \<exists>t. fetch_step c s t" for s
    by (rule fetcher_progress)
  show "fetch_step c s t \<Longrightarrow> po_cancelled s \<Longrightarrow> fetcher_rank (po_fetcher t) < fetcher_rank (po_fetcher s) \<or>
      fetcher_rank (po_fetcher t) = fetcher_rank (po_fetcher s) \<and>
      3 * length (in_hand (po_fetcher t)) + 2 * length (po_chan t) < 3 * length (in_hand (po_fetcher s)) + 2 * length (po_chan s)" for s t
    by (erule fetch_stepE) (auto simp: fetcher_returns_def)
qed

text \<open>With every worker dead, the channel full and the context live, nothing can move at all.\<close>

lemma all_dead_stuck:
  assumes "all_dead s" and "po_fetcher s = FDispatch (m # ms)" and "int (length (po_chan s)) = chan_cap c"
    and "\<not> po_cancelled s"
  shows "\<not> own_step (fetch_step c) (worker_body rt c) s t"
  using assms by (auto simp: own_step_def all_dead_def list_all_length elim!: fetch_stepE worker_stepE)

end
