(* ===== verification/Handler_Steps.thy ===== *)
theory Handler_Steps
  imports Consumer_Pool Consumer_Correct
begin

section \<open>The message handler call by call\<close>

text \<open>
  \<open>Consumer\<close> has \<open>processMessage\<close> as one operation on the outside state. When workers run side by
  side, other things happen between two of its calls, so here it is given again as what it is for a
  scheduler: a program that makes one call, waits for the answer, and goes on from there
  (\<open>steps\<close>, a datatype of programs with the calls as constructors and the rest of the program as a
  function of the answer). Run in one go it is the operation of \<open>Consumer\<close>; and whatever the
  answers are, its calls are those of the specification.
\<close>

datatype 'a steps = Done 'a
  | DoAdd go_ctx string task "error + string \<Rightarrow> 'a steps"
  | DoAck go_ctx string string string "error option \<Rightarrow> 'a steps"
  | DoPublish go_ctx event "error option \<Rightarrow> 'a steps"
  | DoProcess go_ctx task "task \<times> proc_result \<Rightarrow> 'a steps"
  | DoCheck go_ctx string "error + bool \<Rightarrow> 'a steps"
  | DoInc metric "'a steps"
  | DoObserve metric int "'a steps"
  | DoNow "int \<Rightarrow> 'a steps"

subsection \<open>The handler\<close>

text \<open>The functions of \<open>consumer/consumer.go\<close>, each with what comes after it.\<close>

definition acknowledge_steps :: "'w consumer \<Rightarrow> go_ctx \<Rightarrow> string \<Rightarrow> 'a steps \<Rightarrow> 'a steps" where
  "acknowledge_steps c ctx msgID k = DoAck ctx (c_stream c) (c_group c) msgID (\<lambda>err. k)"

definition publish_steps :: "go_ctx \<Rightarrow> event \<Rightarrow> 'a steps \<Rightarrow> 'a steps" where
  "publish_steps ctx e k = DoPublish ctx e (\<lambda>err. k)"

definition failure_steps :: "'w consumer \<Rightarrow> go_ctx \<Rightarrow> task \<Rightarrow> string \<Rightarrow> error \<Rightarrow> string \<Rightarrow> 'a steps \<Rightarrow> 'a steps" where
  "failure_steps c ctx t0 originalMsgID processErr workerStrID k =
     (let t = t0\<lparr>Error := processErr\<rparr> in
      if sless64 (CurrentRetries t) (MaxRetries t) then
        (let t1 = t\<lparr>CurrentRetries := CurrentRetries t + 1\<rparr> in
         DoAdd ctx (c_stream c) t1 (\<lambda>r. case r of Inl _ \<Rightarrow> k | Inr _ \<Rightarrow> acknowledge_steps c ctx originalMsgID k))
      else
        DoInc (TasksDLQTotal (Type t))
          (publish_steps ctx \<lparr>EType = ''DLQ'', TaskID = ID t, WorkerID = workerStrID\<rparr>
            (DoAdd ctx (c_dlqStream c) t (\<lambda>r. case r of Inl _ \<Rightarrow> k | Inr _ \<Rightarrow> acknowledge_steps c ctx originalMsgID k))))"

definition gate_steps :: "'w consumer \<Rightarrow> go_ctx \<Rightarrow> task \<Rightarrow> (bool \<Rightarrow> 'a steps) \<Rightarrow> 'a steps" where
  "gate_steps c ctx t k =
     (if has_checker c \<and> IdempotencyKey t \<noteq> [] then
        DoCheck ctx (IdempotencyKey t) (\<lambda>r. case r of Inl _ \<Rightarrow> k False | Inr isNew \<Rightarrow> k (\<not> isNew))
      else k False)"

definition task_steps :: "'w consumer \<Rightarrow> go_ctx \<Rightarrow> int \<Rightarrow> string \<Rightarrow> int \<Rightarrow> task \<Rightarrow> (outcome \<Rightarrow> 'a steps) \<Rightarrow> 'a steps" where
  "task_steps c ctx workerID msgID startTime t k =
     (let workerStrID = worker_id c workerID in
      publish_steps ctx \<lparr>EType = ''Processing'', TaskID = ID t, WorkerID = workerStrID\<rparr>
        (DoProcess (process_ctx ctx t) t (\<lambda>(t', result). case result of
           Panicked \<Rightarrow> k Crashed
         | Returned err \<Rightarrow> DoNow (\<lambda>now. DoObserve (TaskDurationSeconds (Type t')) (now - startTime)
             (case err of
                Some e \<Rightarrow> DoInc (TasksProcessedTotal (Type t') ''error'') (DoInc (TasksFailedTotal (Type t'))
                  (publish_steps ctx \<lparr>EType = ''Failed'', TaskID = ID t', WorkerID = workerStrID\<rparr>
                    (failure_steps c Background t' msgID e workerStrID (k Finished))))
              | None \<Rightarrow> DoInc (TasksProcessedTotal (Type t') ''success'')
                  (publish_steps ctx \<lparr>EType = ''Completed'', TaskID = ID t', WorkerID = workerStrID\<rparr>
                    (acknowledge_steps c Background msgID (k Finished))))))))"

definition message_steps :: "'w consumer \<Rightarrow> go_ctx \<Rightarrow> int \<Rightarrow> stream_message \<Rightarrow> (outcome \<Rightarrow> 'a steps) \<Rightarrow> 'a steps" where
  "message_steps c ctx workerID msg k =
     DoNow (\<lambda>startTime. case payload_string msg of
       None \<Rightarrow> acknowledge_steps c Background (MsgID msg) (k Finished)
     | Some payload \<Rightarrow>
       (case unmarshal payload of
          Inl _ \<Rightarrow> acknowledge_steps c Background (MsgID msg) (k Finished)
        | Inr t \<Rightarrow> gate_steps c ctx t (\<lambda>dup.
            if dup then DoInc TasksDuplicateTotal (acknowledge_steps c Background (MsgID msg) (k Finished))
            else task_steps c ctx workerID (MsgID msg) startTime t k)))"

definition body_steps :: "'w consumer \<Rightarrow> int \<Rightarrow> stream_message \<Rightarrow> outcome steps" where
  "body_steps c workerID msg = message_steps c Background workerID msg
     (\<lambda>oc. case oc of Finished \<Rightarrow> Done Finished | Crashed \<Rightarrow> DoInc WorkerPanicsTotal (Done Crashed))"

lemmas steps_defs = acknowledge_steps_def publish_steps_def failure_steps_def gate_steps_def task_steps_def message_steps_def

subsection \<open>Running a program in one go\<close>

text \<open>A check without a checker does not occur.\<close>

primrec run_steps :: "'w runtime \<Rightarrow> 'w consumer \<Rightarrow> 'a steps \<Rightarrow> ('w, 'a) state" where
  "run_steps rt c (Done x) = State_Monad.return x"
| "run_steps rt c (DoAdd ctx st t k) = State_Monad.bind (store_Add (c_store c) ctx st t) (\<lambda>r. run_steps rt c (k r))"
| "run_steps rt c (DoAck ctx st g m k) = State_Monad.bind (store_Ack (c_store c) ctx st g m) (\<lambda>r. run_steps rt c (k r))"
| "run_steps rt c (DoPublish ctx e k) = State_Monad.bind (c_publisher c ctx e) (\<lambda>r. run_steps rt c (k r))"
| "run_steps rt c (DoProcess ctx t k) = State_Monad.bind (c_processor c ctx t) (\<lambda>r. run_steps rt c (k r))"
| "run_steps rt c (DoCheck ctx key k) = (case c_idempotency c of
     None \<Rightarrow> run_steps rt c (k (Inr True))
   | Some check \<Rightarrow> State_Monad.bind (check ctx key) (\<lambda>r. run_steps rt c (k r)))"
| "run_steps rt c (DoInc m k) = State_Monad.bind (rt_inc rt m) (\<lambda>_. run_steps rt c k)"
| "run_steps rt c (DoObserve m d k) = State_Monad.bind (rt_observe rt m d) (\<lambda>_. run_steps rt c k)"
| "run_steps rt c (DoNow k) = State_Monad.bind (rt_now rt) (\<lambda>n. run_steps rt c (k n))"

lemma run_acknowledge: "run_steps rt c (acknowledge_steps c ctx m k) = State_Monad.bind (acknowledge c ctx m) (\<lambda>_. run_steps rt c k)"
  by (simp add: acknowledge_steps_def acknowledge_def)

lemma run_publish: "run_steps rt c (publish_steps ctx e k) = State_Monad.bind (publish_event c ctx e) (\<lambda>_. run_steps rt c k)"
  by (simp add: publish_steps_def publish_event_def)

lemma run_failure:
  "run_steps rt c (failure_steps c ctx t m e wid k) = State_Monad.bind (handle_task_failure rt c ctx t m e wid) (\<lambda>_. run_steps rt c k)"
  by (auto simp: failure_steps_def handle_task_failure_def Let_def run_publish run_acknowledge
      intro!: arg_cong2 [where f = State_Monad.bind] ext split: sum.split)

lemma run_gate:
  "run_steps rt c (gate_steps c ctx t k) = State_Monad.bind (is_duplicate c ctx t) (\<lambda>dup. run_steps rt c (k dup))"
  by (auto simp: gate_steps_def is_duplicate_def has_checker_def
      intro!: arg_cong2 [where f = State_Monad.bind] ext split: sum.split option.split)

lemma run_task:
  "run_steps rt c (task_steps c ctx w m start t k) =
     State_Monad.bind (process_task rt c ctx w m start t) (\<lambda>oc. run_steps rt c (k oc))"
  by (auto simp: task_steps_def process_task_def Let_def run_publish run_failure run_acknowledge
      intro!: arg_cong2 [where f = State_Monad.bind] ext split: proc_result.split option.split)

lemma run_message:
  "run_steps rt c (message_steps c ctx w msg k) =
     State_Monad.bind (process_message rt c ctx w msg) (\<lambda>oc. run_steps rt c (k oc))"
  by (auto simp: message_steps_def process_message_def run_gate run_task run_acknowledge
      intro!: arg_cong2 [where f = State_Monad.bind] ext split: option.split sum.split)

lemma run_body: "run_steps rt c (body_steps c w m) = worker_body rt c w m"
  by (auto simp: body_steps_def run_message worker_body_def intro!: arg_cong2 [where f = State_Monad.bind] ext split: outcome.split)

subsection \<open>Running it call by call\<close>

text \<open>The next call: what it adds to the trace (reading the clock adds nothing), and the rest.\<close>

fun next_call :: "'w runtime \<Rightarrow> 'w consumer \<Rightarrow> 'a steps \<Rightarrow> ('w, call list \<times> 'a steps) state" where
  "next_call rt c (Done x) = State_Monad.return ([], Done x)"
| "next_call rt c (DoAdd ctx st t k) = do { r \<leftarrow> store_Add (c_store c) ctx st t; State_Monad.return ([CAdd ctx st t r], k r) }"
| "next_call rt c (DoAck ctx st g m k) = do { r \<leftarrow> store_Ack (c_store c) ctx st g m; State_Monad.return ([CAck ctx st g m r], k r) }"
| "next_call rt c (DoPublish ctx e k) = do { r \<leftarrow> c_publisher c ctx e; State_Monad.return ([CPublish ctx e r], k r) }"
| "next_call rt c (DoProcess ctx t k) = do { r \<leftarrow> c_processor c ctx t; State_Monad.return ([CProcess ctx t r], k r) }"
| "next_call rt c (DoCheck ctx key k) = (case c_idempotency c of
     None \<Rightarrow> State_Monad.return ([CCheck ctx key (Inr True)], k (Inr True))
   | Some check \<Rightarrow> do { r \<leftarrow> check ctx key; State_Monad.return ([CCheck ctx key r], k r) })"
| "next_call rt c (DoInc m k) = do { _ \<leftarrow> rt_inc rt m; State_Monad.return ([CInc m], k) }"
| "next_call rt c (DoObserve m d k) = do { _ \<leftarrow> rt_observe rt m d; State_Monad.return ([CObserve m d], k) }"
| "next_call rt c (DoNow k) = do { n \<leftarrow> rt_now rt; State_Monad.return ([], k n) }"

text \<open>The same for any answer, and runs of such steps with the calls they make.\<close>

inductive takes_call :: "'a steps \<Rightarrow> call list \<Rightarrow> 'a steps \<Rightarrow> bool" where
  "takes_call (DoAdd ctx st t k) [CAdd ctx st t r] (k r)"
| "takes_call (DoAck ctx st g m k) [CAck ctx st g m r'] (k r')"
| "takes_call (DoPublish ctx e k) [CPublish ctx e r'] (k r')"
| "takes_call (DoProcess ctx t k) [CProcess ctx t p] (k p)"
| "takes_call (DoCheck ctx key k) [CCheck ctx key b] (k b)"
| "takes_call (DoInc mt q) [CInc mt] q"
| "takes_call (DoObserve mt d q) [CObserve mt d] q"
| "takes_call (DoNow k) [] (k n)"

inductive_simps takes_call_simps [simp]:
  "takes_call (Done x) cs q" "takes_call (DoAdd ctx st t k) cs q" "takes_call (DoAck ctx st g m k) cs q"
  "takes_call (DoPublish ctx e k) cs q" "takes_call (DoProcess ctx t k) cs q" "takes_call (DoCheck ctx key k) cs q"
  "takes_call (DoInc mt p) cs q" "takes_call (DoObserve mt d p) cs q" "takes_call (DoNow k) cs q"

inductive runs :: "'a steps \<Rightarrow> call list \<Rightarrow> 'a steps \<Rightarrow> bool" for p where
  runs_start: "runs p [] p"
| runs_call: "runs p cs q \<Longrightarrow> takes_call q cs' q' \<Longrightarrow> runs p (cs @ cs') q'"

lemma next_call_taken:
  assumes "run_state (next_call rt c p) w = ((cs, q), w')" and "\<nexists>x. p = Done x"
  shows "takes_call p cs q"
  using assms by (cases p) (auto split: prod.splits option.splits)

text \<open>A run of the operation is a run of calls without anything between them.\<close>

inductive calls_made :: "'w runtime \<Rightarrow> 'w consumer \<Rightarrow> 'a steps \<Rightarrow> 'w \<Rightarrow> call list \<Rightarrow> 'a steps \<Rightarrow> 'w \<Rightarrow> bool" for rt c where
  made_none: "calls_made rt c p w [] p w"
| made_next: "\<nexists>x. p = Done x \<Longrightarrow> run_state (next_call rt c p) w = ((cs, q), w1) \<Longrightarrow> calls_made rt c q w1 cs' q' w2 \<Longrightarrow>
    calls_made rt c p w (cs @ cs') q' w2"

lemma run_steps_next:
  assumes "\<nexists>x. p = Done x" and "run_state (next_call rt c p) w = ((cs, q), w1)"
  shows "run_state (run_steps rt c p) w = run_state (run_steps rt c q) w1"
  using assms by (cases p) (auto split: prod.splits option.splits)

lemma steps_induct [case_names step]:
  fixes p :: "'a steps"
  assumes step: "\<And>p. (\<And>cs q. takes_call p cs q \<Longrightarrow> P q) \<Longrightarrow> P p"
  shows "P p"
  by (induction p) (rule step; auto)+

lemma run_steps_made: "\<exists>x cs w'. run_state (run_steps rt c p) w = (x, w') \<and> calls_made rt c p w cs (Done x) w'"
proof (induction p arbitrary: w rule: steps_induct)
  case (step p)
  show ?case
  proof (cases "\<exists>x. p = Done x")
    case True
    then show ?thesis using made_none [of rt c p w] by force
  next
    case False
    obtain cs q w1 where nxt: "run_state (next_call rt c p) w = ((cs, q), w1)" by (metis surj_pair)
    obtain x cs' w' where "run_state (run_steps rt c q) w1 = (x, w')" "calls_made rt c q w1 cs' (Done x) w'"
      using step [OF next_call_taken [OF nxt False]] by blast
    then show ?thesis using made_next [OF False nxt] run_steps_next [OF False nxt] by metis
  qed
qed

subsection \<open>Whatever the answers, the calls are those of the specification\<close>

definition produces :: "'a steps \<Rightarrow> ('a \<Rightarrow> call list \<Rightarrow> bool) \<Rightarrow> bool" where
  "produces p Q \<longleftrightarrow> (\<forall>tr x. runs p tr (Done x) \<longrightarrow> Q x tr)"

lemma runs_append: "runs p cs q \<Longrightarrow> runs q cs' q' \<Longrightarrow> runs p (cs @ cs') q'"
  by (rotate_tac, induction rule: runs.induct) (auto intro: runs_call simp flip: append_assoc)

lemma runs_cases: "runs p tr r \<Longrightarrow> (tr = [] \<and> r = p) \<or> (\<exists>cs q tr'. takes_call p cs q \<and> runs q tr' r \<and> tr = cs @ tr')"
proof (induction rule: runs.induct)
  case (runs_call cs q cs' q')
  then show ?case
  proof (elim disjE exE conjE)
    assume "cs = []" "q = p"
    with runs_call(2) have "takes_call p cs' q'" "runs q' [] q'" by (auto intro: runs_start)
    then show ?thesis using \<open>cs = []\<close> by fastforce
  next
    fix ds r tr' assume r: "takes_call p ds r" "runs r tr' q" "cs = ds @ tr'"
    have "runs r (tr' @ cs') q'" using r(2) runs_call(2) by (rule runs.runs_call)
    with r show ?thesis by (metis append_assoc)
  qed
qed simp

lemma produces_next:
  assumes "\<And>cs q. takes_call p cs q \<Longrightarrow> produces q (\<lambda>x tr. Q x (cs @ tr))" and "\<nexists>x. p = Done x"
  shows "produces p Q"
  unfolding produces_def
proof (intro allI impI)
  fix tr x assume "runs p tr (Done x)"
  then obtain cs q tr' where "takes_call p cs q" "runs q tr' (Done x)" "tr = cs @ tr'"
    using runs_cases assms(2) by blast
  then show "Q x tr" using assms(1) unfolding produces_def by blast
qed

lemma produces_Done: "Q x [] \<Longrightarrow> produces (Done x) Q"
  using runs_cases [of "Done x"] by (auto simp: produces_def)

lemma produces_calls:
  "(\<And>r. produces (k r) (\<lambda>x tr. Q x (CAdd ctx st t r # tr))) \<Longrightarrow> produces (DoAdd ctx st t k) Q"
  "(\<And>r. produces (k' r) (\<lambda>x tr. Q x (CAck ctx st g m r # tr))) \<Longrightarrow> produces (DoAck ctx st g m k') Q"
  "(\<And>r. produces (k' r) (\<lambda>x tr. Q x (CPublish ctx e r # tr))) \<Longrightarrow> produces (DoPublish ctx e k') Q"
  "(\<And>r. produces (kp r) (\<lambda>x tr. Q x (CProcess ctx t r # tr))) \<Longrightarrow> produces (DoProcess ctx t kp) Q"
  "(\<And>r. produces (kb r) (\<lambda>x tr. Q x (CCheck ctx key r # tr))) \<Longrightarrow> produces (DoCheck ctx key kb) Q"
  "produces q (\<lambda>x tr. Q x (CInc mt # tr)) \<Longrightarrow> produces (DoInc mt q) Q"
  "produces q (\<lambda>x tr. Q x (CObserve mt d # tr)) \<Longrightarrow> produces (DoObserve mt d q) Q"
  "(\<And>n. produces (kn n) Q) \<Longrightarrow> produces (DoNow kn) Q"
  by (rule produces_next; auto)+

lemma produces_mono: "produces p P \<Longrightarrow> (\<And>x tr. P x tr \<Longrightarrow> Q x tr) \<Longrightarrow> produces p Q"
  by (simp add: produces_def)

lemma produces_failure:
  assumes "\<And>f ft. failure_trace c ctx t m e wid f ft \<Longrightarrow> produces k (\<lambda>x tr. Q x (f @ tr))"
  shows "produces (failure_steps c ctx t m e wid k) Q"
  unfolding failure_steps_def Let_def acknowledge_steps_def publish_steps_def
  using assms [OF requeue] assms [OF requeue_failed] assms [OF dead_letter] assms [OF dead_letter_failed]
  by (auto intro!: produces_calls simp: retried_task_def failed_task_def split: sum.split)

lemma produces_gate:
  assumes "\<And>g dup. gate_trace (has_checker c) ctx t g dup \<Longrightarrow> produces (k dup) (\<lambda>x tr. Q x (g @ tr))"
  shows "produces (gate_steps c ctx t k) Q"
  unfolding gate_steps_def
  using assms [OF gate_off] assms [OF gate_error] assms [OF gate_checked]
  by (auto intro!: produces_calls split: sum.split)

lemma produces_task:
  assumes "\<And>tr ft. task_trace c ctx w m t tr ft \<Longrightarrow> produces (k (outcome_of ft)) (\<lambda>x tr'. Q x (tr @ tr'))"
  shows "produces (task_steps c ctx w m start t k) Q"
proof -
  have fails: "produces (failure_steps c Background t' m e (worker_id c w) (k Finished))
      (\<lambda>x tr. Q x ([CPublish ctx \<lparr>EType = ''Processing'', TaskID = ID t, WorkerID = worker_id c w\<rparr> r1,
        CProcess (process_ctx ctx t) t (t', Returned (Some e)),
        CObserve (TaskDurationSeconds (Type t')) d,
        CInc (TasksProcessedTotal (Type t') ''error''),
        CInc (TasksFailedTotal (Type t')),
        CPublish ctx \<lparr>EType = ''Failed'', TaskID = ID t', WorkerID = worker_id c w\<rparr> r2] @ tr))" for t' e r1 r2 d
  proof (rule produces_failure)
    fix f ft assume f: "failure_trace c Background t' m e (worker_id c w) f ft"
    then have "outcome_of ft = Finished" using failure_not_panicking by (simp add: outcome_of_def)
    then show "produces (k Finished) (\<lambda>x tr. Q x ([CPublish ctx \<lparr>EType = ''Processing'', TaskID = ID t, WorkerID = worker_id c w\<rparr> r1,
        CProcess (process_ctx ctx t) t (t', Returned (Some e)),
        CObserve (TaskDurationSeconds (Type t')) d,
        CInc (TasksProcessedTotal (Type t') ''error''),
        CInc (TasksFailedTotal (Type t')),
        CPublish ctx \<lparr>EType = ''Failed'', TaskID = ID t', WorkerID = worker_id c w\<rparr> r2] @ f @ tr))"
      using assms [OF task_fails [OF f]] by simp
  qed
  note panics = assms [OF task_panics, unfolded outcome_of_def, simplified]
  note completes = assms [OF task_completes, unfolded outcome_of_def, simplified]
  show ?thesis
    unfolding task_steps_def Let_def acknowledge_steps_def publish_steps_def
    by (auto intro!: produces_calls panics completes fails [simplified] split: proc_result.splits option.splits)
qed

lemma produces_message:
  assumes "\<And>tr ft. message_trace c ctx w msg tr ft \<Longrightarrow> produces (k (outcome_of ft)) (\<lambda>x tr'. Q x (tr @ tr'))"
  shows "produces (message_steps c ctx w msg k) Q"
proof -
  note unreadable = assms [OF message_trace.unreadable, unfolded outcome_of_def, simplified]
  have duplicate: "produces (k Finished) (\<lambda>x tr. Q x (g @ CInc TasksDuplicateTotal #
      CAck Background (c_stream c) (c_group c) (MsgID msg) r # tr))"
    if "decoded msg = Some t" "gate_trace (has_checker c) ctx t g True" for t g r
    using assms [OF message_trace.duplicate [OF that]] by (simp add: outcome_of_def)
  have processed: "produces (task_steps c ctx w (MsgID msg) start t k) (\<lambda>x tr. Q x (g @ tr))"
    if "decoded msg = Some t" "gate_trace (has_checker c) ctx t g False" for t g start
    by (rule produces_task) (use assms [OF message_trace.processed [OF that]] in simp)
  show ?thesis
    unfolding message_steps_def acknowledge_steps_def
    by (auto intro!: produces_calls produces_gate unreadable simp: decoded_def split: option.splits sum.splits)
       (rule duplicate processed; auto simp: decoded_def)+
qed

subsection \<open>The number of calls\<close>

text \<open>\<open>within p n\<close>: whatever the answers, \<open>p\<close> is done after at most \<open>n\<close> calls.\<close>

primrec within :: "'a steps \<Rightarrow> nat \<Rightarrow> bool" where
  "within (Done x) n = True"
| "within (DoAdd ctx st t k) n = (n \<noteq> 0 \<and> (\<forall>r. within (k r) (n - 1)))"
| "within (DoAck ctx st g m k) n = (n \<noteq> 0 \<and> (\<forall>r. within (k r) (n - 1)))"
| "within (DoPublish ctx e k) n = (n \<noteq> 0 \<and> (\<forall>r. within (k r) (n - 1)))"
| "within (DoProcess ctx t k) n = (n \<noteq> 0 \<and> (\<forall>r. within (k r) (n - 1)))"
| "within (DoCheck ctx key k) n = (n \<noteq> 0 \<and> (\<forall>r. within (k r) (n - 1)))"
| "within (DoInc mt p) n = (n \<noteq> 0 \<and> within p (n - 1))"
| "within (DoObserve mt d p) n = (n \<noteq> 0 \<and> within p (n - 1))"
| "within (DoNow k) n = (n \<noteq> 0 \<and> (\<forall>r. within (k r) (n - 1)))"

lemma within_call: "within p n \<Longrightarrow> takes_call p cs q \<Longrightarrow> n \<noteq> 0 \<and> within q (n - 1)"
  by (cases p) auto

lemma within_body: "within (body_steps c w m) 14"
  by (auto simp: body_steps_def steps_defs Let_def split: option.split sum.split proc_result.split)

end
