(* ===== verification/Pool_Correct.thy ===== *)
theory Pool_Correct
  imports Consumer_Pool Test_Doubles
begin

section \<open>What the worker pool guarantees\<close>

text \<open>
  The properties of \<open>Start\<close>, \<open>fetchTasks\<close> and \<open>worker\<close>, from the interpretation of the shutdown
  contract on the pool, and two short runs of a one-worker pool on the test doubles for the
  witnesses.
\<close>

subsection \<open>Two runs of a pool with one worker\<close>

definition one_msg_store :: "unit stream_store" where
  "one_msg_store = (mock_store None None None)\<lparr>store_ReadGroup :=
     (\<lambda>ctx stream grp consumer count block. State_Monad.return (Inr [null_msg]))\<rparr>"

definition demo_consumer :: "unit task_processor \<Rightarrow> unit consumer" where
  "demo_consumer processor = new_test_consumer one_msg_store (mock_publisher None) processor"

definition demo :: "fetcher \<Rightarrow> stream_message list \<Rightarrow> worker \<Rightarrow> bool \<Rightarrow> stream_message list \<Rightarrow> stream_message list \<Rightarrow>
    stream_message list \<Rightarrow> stream_message list \<Rightarrow> unit consumer_pool" where
  "demo f ch wk cancelled fetched taken finished crashed =
     \<lparr>po_fetcher = f, po_chan = ch, po_closed = (f = FReturned), po_workers = [wk], po_cancelled = cancelled, po_world = (),
      po_fetched = fetched, po_taken = taken, po_finished = finished, po_crashed = crashed, po_dropped = []\<rparr>"

lemma demo_finishes:
  "run_state (worker_body mock_runtime (demo_consumer (mock_processor None)) 1 null_msg) () = (Finished, ())"
  by (simp add: worker_body_def handler_defs mock_defs demo_consumer_def one_msg_store_def null_msg_def unmarshal_null)

lemma demo_crashes:
  "run_state (worker_body mock_runtime (demo_consumer panicking_processor) 1 null_msg) () = (Crashed, ())"
  by (simp add: worker_body_def handler_defs mock_defs demo_consumer_def one_msg_store_def null_msg_def unmarshal_null)

lemma demo_fetch: "fetch (demo_consumer p) () = (Inr [null_msg], ())"
  by (simp add: fetch_def demo_consumer_def mock_defs one_msg_store_def)

lemma demo_cap: "chan_cap (demo_consumer p) = 10"
  by (simp add: chan_cap_def demo_consumer_def mock_defs)

lemma demo_init: "pool_init (demo_consumer p) (demo FLoop [] WWaiting False [] [] [] [])"
  by (simp add: pool_init_def Start_started demo_cap chan_allowed_def started_pool_def demo_def)
     (simp add: demo_consumer_def mock_defs one_msg_store_def)

lemma demo_start: "reachable (pool_init (demo_consumer p)) step (demo FLoop [] WWaiting False [] [] [] [])"
  by (rule initial) (rule demo_init)

text \<open>One message fetched and handed to the worker, which is busy with it.\<close>

lemma demo_busy:
  "reachable (pool_init (demo_consumer p)) (consumer_step rt (demo_consumer p))
     (demo (FDispatch []) [] (WBusy null_msg) False [null_msg] [null_msg] [] [])"
proof -
  let ?c = "demo_consumer p"
  let ?s = "\<lambda>f ch wk fe ta. demo f ch wk False fe ta [] []"
  have 1: "consumer_step rt ?c (?s FLoop [] WWaiting [] []) (?s FReading [] WWaiting [] [])"
    using fetch_reads [of "?s FLoop [] WWaiting [] []" ?c] by (auto intro: fetch_any worker_any simp: demo_def)
  have 2: "consumer_step rt ?c (?s FReading [] WWaiting [] []) (?s (FDispatch [null_msg]) [] WWaiting [null_msg] [])"
    using fetch_got [of "?s FReading [] WWaiting [] []" ?c "[null_msg]" "()"]
    by (auto intro: fetch_any worker_any simp: demo_def demo_fetch)
  have 3: "consumer_step rt ?c (?s (FDispatch [null_msg]) [] WWaiting [null_msg] []) (?s (FDispatch []) [null_msg] WWaiting [null_msg] [])"
    using fetch_sends [of "?s (FDispatch [null_msg]) [] WWaiting [null_msg] []" null_msg "[]" ?c]
    by (auto intro: fetch_any worker_any simp: demo_def demo_cap)
  have 4: "consumer_step rt ?c (?s (FDispatch []) [null_msg] WWaiting [null_msg] []) (?s (FDispatch []) [] (WBusy null_msg) [null_msg] [null_msg])"
    using worker_takes [of 0 "?s (FDispatch []) [null_msg] WWaiting [null_msg] []" null_msg "[]" "worker_body rt ?c"]
    by (auto intro: fetch_any worker_any simp: demo_def set_worker_def)
  show ?thesis
    using demo_start [of p "consumer_step rt ?c"] successor [of "pool_init ?c" "consumer_step rt ?c"] 1 2 3 4 by metis
qed

text \<open>The worker finishes, the signal comes, and everyone returns.\<close>

lemma demo_returned:
  "reachable (pool_init (demo_consumer (mock_processor None))) (consumer_step mock_runtime (demo_consumer (mock_processor None)))
     (demo FReturned [] WReturned True [null_msg] [null_msg] [null_msg] [])"
proof -
  let ?c = "demo_consumer (mock_processor None)"
  let ?s = "\<lambda>f wk ca fi. demo f [] wk ca [null_msg] [null_msg] fi []"
  have 1: "consumer_step mock_runtime ?c (?s (FDispatch []) (WBusy null_msg) False []) (?s (FDispatch []) WWaiting False [null_msg])"
    using worker_finishes [of 0 "?s (FDispatch []) (WBusy null_msg) False []" null_msg "worker_body mock_runtime ?c" "()"]
    by (auto intro: fetch_any worker_any simp: demo_def set_worker_def demo_finishes)
  have 2: "consumer_step mock_runtime ?c (?s (FDispatch []) WWaiting False [null_msg]) (?s FLoop WWaiting False [null_msg])"
    using fetch_dispatched [of "?s (FDispatch []) WWaiting False [null_msg]" ?c]
    by (auto intro: fetch_any worker_any simp: demo_def)
  have 3: "consumer_step mock_runtime ?c (?s FLoop WWaiting False [null_msg]) (?s FLoop WWaiting True [null_msg])"
    using env_cancels [of "?s FLoop WWaiting False [null_msg]"] by (auto intro: env_any simp: demo_def)
  have 4: "consumer_step mock_runtime ?c (?s FLoop WWaiting True [null_msg]) (?s FReturned WWaiting True [null_msg])"
    using fetch_stops [of "?s FLoop WWaiting True [null_msg]" ?c]
    by (auto intro: fetch_any worker_any simp: demo_def fetcher_returns_def)
  have 5: "consumer_step mock_runtime ?c (?s FReturned WWaiting True [null_msg]) (?s FReturned WReturned True [null_msg])"
    using worker_any [OF worker_returns [of 0 "?s FReturned WWaiting True [null_msg]" "worker_body mock_runtime ?c"]]
    by (simp add: demo_def set_worker_def)
  show ?thesis
    using demo_busy [of "mock_processor None" mock_runtime] successor [of "pool_init ?c" "consumer_step mock_runtime ?c"] 1 2 3 4 5 by metis
qed

text \<open>The worker crashes.\<close>

lemma demo_dead:
  "reachable (pool_init (demo_consumer panicking_processor)) (consumer_step mock_runtime (demo_consumer panicking_processor))
     (demo (FDispatch []) [] WDead False [null_msg] [null_msg] [] [null_msg])"
proof -
  let ?c = "demo_consumer panicking_processor"
  let ?s = "demo (FDispatch []) [] (WBusy null_msg) False [null_msg] [null_msg] [] []"
  have "consumer_step mock_runtime ?c ?s (demo (FDispatch []) [] WDead False [null_msg] [null_msg] [] [null_msg])"
    using worker_crashes [of 0 ?s null_msg "worker_body mock_runtime ?c" "()"]
    by (auto intro: fetch_any worker_any simp: demo_def set_worker_def demo_crashes)
  with demo_busy show ?thesis by (rule successor [of "pool_init ?c" "consumer_step mock_runtime ?c"])
qed

subsection \<open>Properties\<close>

text \<open>
  C10: Every fetched message is in one place. In every reachable state of the pool, the messages
  ReadGroup returned are, in this order, those workers took, those in the channel, those the
  fetcher holds and those it abandoned at shutdown; and those taken are finished, crashed or in a
  worker's hands: no message is lost, duplicated or reordered between the fetch and the workers.
\<close>

theorem pool_accounts_for_messages:
  assumes "reachable (pool_init c) (consumer_step rt c) s"
  shows "po_fetched s = po_taken s @ po_chan s @ in_hand (po_fetcher s) @ po_dropped s \<and>
    mset (po_taken s) = mset (po_finished s) + mset (po_crashed s) + busy (po_workers s)"
  using pool.reachable_inv [OF assms] by (simp add: pool_inv_def)

theorem pool_accounts_for_messages_witness:
  "po_fetched (demo (FDispatch []) [] (WBusy null_msg) False [null_msg] [null_msg] [] []) = [null_msg] \<and>
   po_fetched (demo (FDispatch []) [] (WBusy null_msg) False [null_msg] [null_msg] [] []) =
     [null_msg] @ [] @ [] @ [] \<and>
   mset [null_msg] = mset [] + mset [] + {#null_msg#}"
  using pool_accounts_for_messages [OF demo_busy [of "mock_processor None" mock_runtime]]
  by (simp add: demo_def)

text \<open>
  C39: The channel is used safely. In every reachable state it holds at most its capacity, ten
  messages per worker; it is closed by the fetcher alone, on the way out and after the context was
  cancelled, so nothing is ever sent on a closed channel; and a worker that stopped on its own left
  it closed and empty.
\<close>

theorem channel_protocol:
  assumes "reachable (pool_init c) (consumer_step rt c) s"
  shows "int (length (po_chan s)) \<le> sint (c_workerCount c * 10) \<and>
    (po_closed s \<longleftrightarrow> po_fetcher s = FReturned) \<and>
    (po_closed s \<longrightarrow> po_cancelled s \<and> (\<forall>t. \<not> fetch_step c s t)) \<and>
    (WReturned \<in> set (po_workers s) \<longrightarrow> po_closed s \<and> po_chan s = [])"
proof -
  have "pool_inv in_hand (\<lambda>f. f = FReturned) (chan_cap c) (nat (sint (c_workerCount c))) s"
    by (rule pool.reachable_inv) (rule assms)
  moreover have "\<not> fetch_step c s t" if "po_fetcher s = FReturned" for t
    using that by (auto elim: fetch_stepE)
  ultimately show ?thesis unfolding pool_inv_def chan_cap_def by blast
qed

theorem channel_protocol_witness:
  "let s = demo FReturned [] WReturned True [null_msg] [null_msg] [null_msg] [] in
   int (length (po_chan s)) \<le> 10 \<and> po_closed s \<and> po_cancelled s \<and> \<not> fetch_step (demo_consumer (mock_processor None)) s s"
  using channel_protocol [OF demo_returned]
  by (auto simp: Let_def demo_def)

text \<open>
  C11: Shutdown ends. Once the context is cancelled, the pool can always move until the fetcher and
  all workers have returned; its goroutines can only make finitely many steps; and every fair run
  with the environment, one in which the goroutines are scheduled again and again while any of them
  can move, comes to the point where Start returns, whatever the store answers, whatever the
  environment does to it, and wherever the goroutines were (for handlers and store calls that
  return).
\<close>

theorem shutdown_ends:
  assumes "reachable (pool_init c) (consumer_step rt c) s" and "po_cancelled s"
  shows "(\<exists>t. (own_step (fetch_step c) (worker_body rt c))\<^sup>*\<^sup>* s t \<and> all_returned (\<lambda>f. f = FReturned) t) \<and>
    \<not> (\<exists>f. f 0 = s \<and> (\<forall>i. own_step (fetch_step c) (worker_body rt c) (f i) (f (Suc i)))) \<and>
    \<not> (\<exists>f. f 0 = s \<and> endless_run (consumer_step rt c) f \<and> fair_run (own_step (fetch_step c) (worker_body rt c)) f \<and>
        (\<forall>i. \<not> all_returned (\<lambda>f. f = FReturned) (f i)))"
  by (rule pool.ends) (rule pool.reachable_inv [OF assms(1)], rule assms(2))

lemma demo_cancelled:
  "reachable (pool_init (demo_consumer p)) (consumer_step rt (demo_consumer p))
     (demo (FDispatch []) [] (WBusy null_msg) True [null_msg] [null_msg] [] [])"
proof -
  let ?s = "demo (FDispatch []) [] (WBusy null_msg) False [null_msg] [null_msg] [] []"
  have "consumer_step rt (demo_consumer p) ?s (demo (FDispatch []) [] (WBusy null_msg) True [null_msg] [null_msg] [] [])"
    using env_cancels [of ?s] by (auto intro: env_any simp: demo_def)
  with demo_busy show ?thesis by (rule successor [of "pool_init (demo_consumer p)" "consumer_step rt (demo_consumer p)"])
qed

theorem shutdown_ends_witness:
  "\<exists>t. (own_step (fetch_step (demo_consumer (mock_processor None))) (worker_body mock_runtime (demo_consumer (mock_processor None))))\<^sup>*\<^sup>*
     (demo (FDispatch []) [] (WBusy null_msg) True [null_msg] [null_msg] [] []) t \<and> all_returned (\<lambda>f. f = FReturned) t"
  using shutdown_ends [OF demo_cancelled [of "mock_processor None" mock_runtime]] by (simp add: demo_def)

text \<open>
  C21: A graceful shutdown loses nothing that was dispatched. When Start has returned, no worker
  crashed and there is at least one worker, every message ReadGroup returned was handled to the
  end, except those the fetcher was still holding when it was cancelled; none is left in the
  channel.
\<close>

theorem graceful_shutdown:
  assumes "reachable (pool_init c) (consumer_step rt c) s" and "all_returned (\<lambda>f. f = FReturned) s"
    and "po_crashed s = []" and "0 < sint (c_workerCount c)"
  shows "po_chan s = [] \<and> mset (po_fetched s) = mset (po_finished s) + mset (po_dropped s)"
  using pool.returned_pool [OF pool.reachable_inv [OF assms(1)] assms(2,3)] assms(2,4)
  by (simp add: all_returned_def)

theorem graceful_shutdown_witness:
  "let s = demo FReturned [] WReturned True [null_msg] [null_msg] [null_msg] [] in
   all_returned (\<lambda>f. f = FReturned) s \<and> po_chan s = [] \<and> mset (po_fetched s) = mset (po_finished s) + mset (po_dropped s)"
proof -
  let ?s = "demo FReturned [] WReturned True [null_msg] [null_msg] [null_msg] []"
  have a: "all_returned (\<lambda>f. f = FReturned) ?s" "po_crashed ?s = []" "0 < sint (c_workerCount (demo_consumer (mock_processor None)))"
    by (simp_all add: all_returned_def demo_def demo_consumer_def mock_defs)
  show ?thesis using graceful_shutdown [OF demo_returned a] a(1) by (simp add: Let_def)
qed

text \<open>
  C22: A panic costs a worker for good. In every reachable state as many workers are dead as
  messages crashed a handler; and once all workers are dead, no message is taken from the channel
  or finished ever again, although the fetcher keeps reading messages from the stream until the
  channel is full, after which nothing moves before the shutdown.
\<close>

theorem panics_kill_workers:
  assumes "reachable (pool_init c) (consumer_step rt c) s"
  shows "length (filter (\<lambda>x. x = WDead) (po_workers s)) = length (po_crashed s) \<and>
    (all_dead s \<longrightarrow> (\<forall>t. (consumer_step rt c)\<^sup>*\<^sup>* s t \<longrightarrow> po_taken t = po_taken s \<and> po_finished t = po_finished s) \<and>
       ((\<exists>m ms. po_fetcher s = FDispatch (m # ms)) \<and> int (length (po_chan s)) = chan_cap c \<and> \<not> po_cancelled s \<longrightarrow>
          (\<forall>t. \<not> own_step (fetch_step c) (worker_body rt c) s t)))"
proof -
  have "length (filter (\<lambda>x. x = WDead) (po_workers s)) = length (po_crashed s)"
    using pool.dead_count pool.reachable_inv [OF assms] .
  then show ?thesis using pool.all_dead_run [of c rt s] all_dead_stuck [of s _ _ c rt] by blast
qed

theorem panics_kill_workers_witness:
  "let s = demo (FDispatch []) [] WDead False [null_msg] [null_msg] [] [null_msg];
       c = demo_consumer panicking_processor in
   all_dead s \<and> length (filter (\<lambda>x. x = WDead) (po_workers s)) = 1 \<and>
   consumer_step mock_runtime c s (s\<lparr>po_fetcher := FLoop\<rparr>) \<and> po_finished (s\<lparr>po_fetcher := FLoop\<rparr>) = po_finished s"
proof -
  let ?s = "demo (FDispatch []) [] WDead False [null_msg] [null_msg] [] [null_msg]"
  let ?c = "demo_consumer panicking_processor"
  have d: "all_dead ?s" "po_crashed ?s = [null_msg]" by (simp_all add: all_dead_def demo_def)
  have st: "consumer_step mock_runtime ?c ?s (?s\<lparr>po_fetcher := FLoop\<rparr>)"
    by (rule fetch_any) (rule fetch_dispatched, simp add: demo_def)
  with panics_kill_workers [OF demo_dead] d show ?thesis
    unfolding Let_def by (metis r_into_rtranclp One_nat_def length_Cons list.size(3))
qed

text \<open>
  When Start fails. Start returns an error exactly when the consumer group cannot be created,
  with the reason, before any message is read; it panics exactly when the group is there but ten
  times the worker count is negative, or more than the address space can hold, as a channel size
  (the product wraps around at 64 bits); otherwise it starts one waiting worker per count.
\<close>

lemma start_outcomes:
  "case Start c w of
     StartFailed e \<Rightarrow> (\<exists>err. fst (run_state (store_CreateGroup (c_store c) MainCtx (c_stream c) (c_group c)) w) = Some err \<and>
        e = ''failed to create consumer group: '' @ err)
   | StartPanicked \<Rightarrow> fst (run_state (store_CreateGroup (c_store c) MainCtx (c_stream c) (c_group c)) w) = None \<and>
        (sint (c_workerCount c * 10) < 0 \<or> 2 ^ 48 - 96 < 24 * sint (c_workerCount c * 10))
   | Started s \<Rightarrow> fst (run_state (store_CreateGroup (c_store c) MainCtx (c_stream c) (c_group c)) w) = None \<and>
        po_fetched s = [] \<and> po_workers s = replicate (nat (sint (c_workerCount c))) WWaiting"
  by (auto simp: Start_def started_pool_def chan_allowed_def chan_cap_def split: prod.split option.split)

end
