(* ===== verification/Pool_Log.thy ===== *)
theory Pool_Log
  imports Pool_Correct Consumer_Correct
begin

section \<open>The pool and its handlers together: what the whole consumer does to the outside\<close>

text \<open>
  \<open>Pool_Correct\<close> follows the messages through the pool, \<open>Consumer_Correct\<close> the calls of one run
  of the handler. Here the two are composed: the pool runs with spied collaborators, so that its
  outside state carries the log of every call the consumer made since its start, and the log is
  shown to be made of the fetcher's reads and of whole runs of the handler, one for each message
  that left a worker's hands. The environment may do what it likes to the outside state proper,
  but the log is the consumer's own.
\<close>

definition logged_init :: "'w consumer \<Rightarrow> 'w spied consumer_pool \<Rightarrow> bool" where
  "logged_init c s \<longleftrightarrow> (\<exists>w. Start (spy_consumer c) \<lparr>calls = [], world = w\<rparr> = Started s)"

abbreviation logged_own :: "'w runtime \<Rightarrow> 'w consumer \<Rightarrow> 'w spied consumer_pool \<Rightarrow> 'w spied consumer_pool \<Rightarrow> bool" where
  "logged_own rt c \<equiv> own_step (fetch_step (spy_consumer c)) (worker_body (spy_runtime rt) (spy_consumer c))"

inductive outside_step :: "'w spied consumer_pool \<Rightarrow> 'w spied consumer_pool \<Rightarrow> bool" where
  outside_cancels: "outside_step s (s\<lparr>po_cancelled := True\<rparr>)"
| outside_acts: "outside_step s (s\<lparr>po_world := (po_world s)\<lparr>world := w\<rparr>\<rparr>)"

inductive_cases outside_stepE: "outside_step s t"

definition logged_step :: "'w runtime \<Rightarrow> 'w consumer \<Rightarrow> 'w spied consumer_pool \<Rightarrow> 'w spied consumer_pool \<Rightarrow> bool" where
  "logged_step rt c s t \<longleftrightarrow> logged_own rt c s t \<or> outside_step s t"

abbreviation pool_log :: "'w spied consumer_pool \<Rightarrow> call list" where
  "pool_log s \<equiv> calls (po_world s)"

text \<open>One run of a worker's body: the handler's trace and fate; a panic is counted after it.\<close>

record body_run =
  br_worker :: int
  br_message :: stream_message
  br_trace :: "call list"
  br_fate :: fate

definition run_calls :: "body_run \<Rightarrow> call list" where
  "run_calls r = br_trace r @ (if br_fate r = Panicking then [CInc WorkerPanicsTotal] else [])"

definition run_allowed :: "'w consumer \<Rightarrow> body_run \<Rightarrow> bool" where
  "run_allowed c r \<longleftrightarrow> 1 \<le> br_worker r \<and> br_worker r \<le> sint (c_workerCount c) \<and>
     message_trace c Background (br_worker r) (br_message r) (br_trace r) (br_fate r)"

definition finished_messages :: "body_run list \<Rightarrow> stream_message list" where
  "finished_messages rs = map br_message (filter (\<lambda>r. br_fate r \<noteq> Panicking) rs)"

definition crashed_messages :: "body_run list \<Rightarrow> stream_message list" where
  "crashed_messages rs = map br_message (filter (\<lambda>r. br_fate r = Panicking) rs)"

text \<open>The reads in a log, and the messages they returned.\<close>

fun is_read :: "call \<Rightarrow> bool" where
  "is_read (CReadGroup _ _ _ _ _ _ _) = True"
| "is_read _ = False"

fun read_messages :: "call \<Rightarrow> stream_message list" where
  "read_messages (CReadGroup _ _ _ _ _ _ (Inr ms)) = ms"
| "read_messages _ = []"

definition handler_log :: "call list \<Rightarrow> call list" where
  "handler_log cs = filter (\<lambda>x. \<not> is_read x) cs"

text \<open>What a log means: the group was created, then these runs happened, on these messages.\<close>

definition log_explained :: "'w consumer \<Rightarrow> body_run list \<Rightarrow> 'w spied consumer_pool \<Rightarrow> bool" where
  "log_explained c rs s \<longleftrightarrow>
     handler_log (pool_log s) = CCreateGroup MainCtx (c_stream c) (c_group c) None # concat (map run_calls rs) \<and>
     list_all (run_allowed c) rs \<and>
     finished_messages rs = po_finished s \<and> crashed_messages rs = po_crashed s \<and>
     concat (map read_messages (pool_log s)) = po_fetched s"

lemma spy_consumer_pool [simp]:
  "c_workerCount (spy_consumer c) = c_workerCount c" "chan_cap (spy_consumer c) = chan_cap c"
  "c_fetchBatchSize (spy_consumer c) = c_fetchBatchSize c" "c_blockTimeout (spy_consumer c) = c_blockTimeout c"
  by (simp_all add: spy_consumer_def chan_cap_def)

subsection \<open>The calls of one step\<close>

lemma handler_log_append [simp]: "handler_log (xs @ ys) = handler_log xs @ handler_log ys"
  by (simp add: handler_log_def)

lemma read_messages_other: "\<not> is_read x \<Longrightarrow> read_messages x = []"
  by (cases x rule: is_read.cases) auto

lemma trace_has_no_reads:
  assumes "message_trace c ctx w m tr ft"
  shows "handler_log tr = tr" and "concat (map read_messages tr) = []"
proof -
  have "list_all (\<lambda>x. \<not> is_read x) tr"
    using assms by (cases rule: message_trace_elim) (auto elim!: failure_trace_cases gate_traceE)
  then show "handler_log tr = tr" and "concat (map read_messages tr) = []"
    by (auto simp: handler_log_def list_all_iff filter_id_conv read_messages_other)
qed

lemma body_calls:
  assumes "run_state (worker_body (spy_runtime rt) (spy_consumer c) w m) s = (oc, s')"
  obtains r where "calls s' = calls s @ run_calls r" and "br_worker r = w" and "br_message r = m"
    and "message_trace c Background w m (br_trace r) (br_fate r)" and "oc = outcome_of (br_fate r)"
proof -
  have "yields (worker_body (spy_runtime rt) (spy_consumer c) w m)
      (\<lambda>oc tr. \<exists>r. tr = run_calls r \<and> br_worker r = w \<and> br_message r = m \<and>
         message_trace c Background w m (br_trace r) (br_fate r) \<and> oc = outcome_of (br_fate r))"
    unfolding worker_body_def
  proof (intro yields_intros)
    fix tr ft assume tr: "message_trace c Background w m tr ft"
    let ?r = "\<lparr>br_worker = w, br_message = m, br_trace = tr, br_fate = ft\<rparr>"
    show "yields (case outcome_of ft of Finished \<Rightarrow> State_Monad.return Finished
        | Crashed \<Rightarrow> do { _ \<leftarrow> rt_inc (spy_runtime rt) WorkerPanicsTotal; State_Monad.return Crashed })
      (\<lambda>oc tr'. \<exists>r. tr @ tr' = run_calls r \<and> br_worker r = w \<and> br_message r = m \<and>
         message_trace c Background w m (br_trace r) (br_fate r) \<and> oc = outcome_of (br_fate r))"
      using tr by (auto simp: outcome_of_def run_calls_def intro!: yields_intros exI [of _ ?r])
  qed
  then show thesis using assms that by (blast elim: yieldsD)
qed

lemma fetch_calls:
  assumes "fetch (spy_consumer c) s = (r, s')"
  shows "calls s' = calls s @ [CReadGroup MainCtx (c_stream c) (c_group c) (c_consumer c) (c_fetchBatchSize c)
    (GoDuration (c_blockTimeout c)) r]"
  using assms by (auto simp: fetch_def run_spy)

lemma fetch_step_explained:
  assumes "fetch_step (spy_consumer c) s t" and "log_explained c rs s"
  shows "log_explained c rs t"
  using assms
  by cases (auto simp: log_explained_def fetcher_returns_def handler_log_def dest!: fetch_calls)

lemma worker_step_explained:
  assumes "worker_step (worker_body (spy_runtime rt) (spy_consumer c)) i s t" and "log_explained c rs s"
    and "int (length (po_workers s)) \<le> max 0 (sint (c_workerCount c))"
  shows "\<exists>r. log_explained c r t"
  using assms(1)
proof cases
  case (worker_finishes m w')
  obtain r where r: "calls w' = calls (po_world s) @ run_calls r" "br_worker r = int i + 1" "br_message r = m"
    "message_trace c Background (int i + 1) m (br_trace r) (br_fate r)" "Finished = outcome_of (br_fate r)"
    by (rule body_calls [OF worker_finishes(4)])
  have "log_explained c (rs @ [r]) t"
    using worker_finishes r trace_has_no_reads [OF r(4)] assms(2,3)
    by (auto simp: log_explained_def set_worker_def run_allowed_def run_calls_def finished_messages_def crashed_messages_def
        outcome_of_def handler_log_def split: if_splits)
  then show ?thesis ..
next
  case (worker_crashes m w')
  obtain r where r: "calls w' = calls (po_world s) @ run_calls r" "br_worker r = int i + 1" "br_message r = m"
    "message_trace c Background (int i + 1) m (br_trace r) (br_fate r)" "Crashed = outcome_of (br_fate r)"
    by (rule body_calls [OF worker_crashes(4)])
  have "log_explained c (rs @ [r]) t"
    using worker_crashes r trace_has_no_reads [OF r(4)] assms(2,3)
    by (auto simp: log_explained_def set_worker_def run_allowed_def run_calls_def finished_messages_def crashed_messages_def
        outcome_of_def handler_log_def split: if_splits)
  then show ?thesis ..
qed (use assms(2) in \<open>auto simp: log_explained_def set_worker_def\<close>)

subsection \<open>Every reachable log is explained\<close>

definition logged_inv :: "'w consumer \<Rightarrow> 'w spied consumer_pool \<Rightarrow> bool" where
  "logged_inv c s \<longleftrightarrow> pool_inv in_hand (\<lambda>f. f = FReturned) (chan_cap c) (nat (sint (c_workerCount c))) s \<and>
     (\<exists>rs. log_explained c rs s)"

lemma logged_is_step: "logged_step rt c s t \<Longrightarrow> consumer_step (spy_runtime rt) (spy_consumer c) s t"
  by (auto simp: logged_step_def any_step_def elim!: outside_stepE intro: env_step.intros)

lemma logged_init_explained: "logged_init c s \<Longrightarrow> log_explained c [] s"
  by (auto simp: logged_init_def Start_started run_spy log_explained_def started_pool_def handler_log_def
      finished_messages_def crashed_messages_def)

interpretation logged: safety "logged_init c" "logged_step rt c" "logged_inv c" for rt c
proof
  fix s t
  show "logged_init c s \<Longrightarrow> logged_inv c s"
    using logged_init_explained [of c s] pool.pool_start_inv [of "spy_consumer c" s]
    by (auto simp: logged_inv_def logged_init_def pool_init_def)
  assume inv: "logged_inv c s" and step: "logged_step rt c s t"
  then obtain rs where rs: "log_explained c rs s" by (auto simp: logged_inv_def)
  have "pool_inv in_hand (\<lambda>f. f = FReturned) (chan_cap c) (nat (sint (c_workerCount c))) t"
    using pool.any_step_inv [OF _ logged_is_step [OF step]] inv by (simp add: logged_inv_def)
  moreover have "\<exists>rs. log_explained c rs t"
    using step [unfolded logged_step_def own_step_def]
  proof (elim disjE exE)
    assume "fetch_step (spy_consumer c) s t"
    then show ?thesis using fetch_step_explained rs by blast
  next
    fix i assume "worker_step (worker_body (spy_runtime rt) (spy_consumer c)) i s t"
    then show ?thesis using worker_step_explained [OF _ rs] inv by (simp add: logged_inv_def pool_inv_def)
  next
    assume "outside_step s t"
    then show ?thesis using rs by (auto simp: log_explained_def elim!: outside_stepE)
  qed
  ultimately show "logged_inv c t" by (simp add: logged_inv_def)
qed

subsection \<open>Logging changes nothing\<close>

text \<open>The pool without its log, and every step of the pool as a step of the logged one.\<close>

definition unlogged :: "'w spied consumer_pool \<Rightarrow> 'w consumer_pool" where
  "unlogged s = \<lparr>po_fetcher = po_fetcher s, po_chan = po_chan s, po_closed = po_closed s, po_workers = po_workers s,
     po_cancelled = po_cancelled s, po_world = world (po_world s), po_fetched = po_fetched s, po_taken = po_taken s,
     po_finished = po_finished s, po_crashed = po_crashed s, po_dropped = po_dropped s\<rparr>"

lemma unlogged_simps [simp]:
  "po_fetcher (unlogged s) = po_fetcher s" "po_chan (unlogged s) = po_chan s" "po_closed (unlogged s) = po_closed s"
  "po_workers (unlogged s) = po_workers s" "po_cancelled (unlogged s) = po_cancelled s"
  "po_world (unlogged s) = world (po_world s)" "po_fetched (unlogged s) = po_fetched s" "po_taken (unlogged s) = po_taken s"
  "po_finished (unlogged s) = po_finished s" "po_crashed (unlogged s) = po_crashed s" "po_dropped (unlogged s) = po_dropped s"
  by (simp_all add: unlogged_def)

lemma fetch_unlogged:
  assumes "fetch c (world s) = (r, w)"
  obtains s' where "fetch (spy_consumer c) s = (r, s')" and "world s' = w"
  using assms that by (auto simp: fetch_def run_spy)

lemma body_unlogged:
  assumes "run_state (worker_body rt c i m) (world s) = (r, w)"
  obtains s' where "run_state (worker_body (spy_runtime rt) (spy_consumer c) i m) s = (r, s')" and "world s' = w"
proof -
  have "mirrors (worker_body rt c i m) (worker_body (spy_runtime rt) (spy_consumer c) i m)"
    unfolding worker_body_def by (auto intro!: mirrors_intros split: outcome.splits)
  then show thesis
    using that assms unfolding mirrors_def
    by (metis (no_types, lifting) fst_map_prod id_apply prod.collapse prod.sel(1) prod.sel(2) snd_map_prod)
qed

lemma fetch_step_unlogged:
  assumes "fetch_step c (unlogged s) u"
  shows "\<exists>t. fetch_step (spy_consumer c) s t \<and> unlogged t = u"
  using assms
proof cases
  case (fetch_got ms w')
  then obtain s' where "fetch (spy_consumer c) (po_world s) = (Inr ms, s')" "world s' = w'" by (auto elim: fetch_unlogged)
  then show ?thesis using fetch_got fetch_step.fetch_got [of s "spy_consumer c" ms s'] by (auto simp: unlogged_def)
next
  case (fetch_failed_cancelled err w')
  then obtain s' where "fetch (spy_consumer c) (po_world s) = (Inl err, s')" "world s' = w'" by (auto elim: fetch_unlogged)
  then show ?thesis
    using fetch_failed_cancelled fetch_step.fetch_failed_cancelled [of s "spy_consumer c" err s']
    by (auto simp: unlogged_def fetcher_returns_def)
next
  case (fetch_failed err w')
  then obtain s' where "fetch (spy_consumer c) (po_world s) = (Inl err, s')" "world s' = w'" by (auto elim: fetch_unlogged)
  then show ?thesis using fetch_failed fetch_step.fetch_failed [of s "spy_consumer c" err s'] by (auto simp: unlogged_def)
next
  case fetch_stops
  then show ?thesis using fetch_step.fetch_stops [of s "spy_consumer c"] by (auto simp: unlogged_def fetcher_returns_def)
next
  case fetch_reads
  then show ?thesis using fetch_step.fetch_reads [of s "spy_consumer c"] by (auto simp: unlogged_def)
next
  case fetch_wakes
  then show ?thesis using fetch_step.fetch_wakes [of s "spy_consumer c"] by (auto simp: unlogged_def)
next
  case (fetch_sends m ms)
  then show ?thesis using fetch_step.fetch_sends [of s m ms "spy_consumer c"] by (auto simp: unlogged_def)
next
  case (fetch_abandons m ms)
  then show ?thesis
    using fetch_step.fetch_abandons [of s m ms "spy_consumer c"] by (auto simp: unlogged_def fetcher_returns_def)
next
  case fetch_dispatched
  then show ?thesis using fetch_step.fetch_dispatched [of s "spy_consumer c"] by (auto simp: unlogged_def)
qed

lemma worker_step_unlogged:
  assumes "worker_step (worker_body rt c) i (unlogged s) u"
  shows "\<exists>t. worker_step (worker_body (spy_runtime rt) (spy_consumer c)) i s t \<and> unlogged t = u" (is "\<exists>t. worker_step ?body i s t \<and> _")
  using assms
proof cases
  case (worker_takes m ch)
  then show ?thesis using worker_step.worker_takes [of i s m ch ?body] by (auto simp: unlogged_def set_worker_def)
next
  case (worker_finishes m w')
  then obtain s' where "run_state (?body (int i + 1) m) (po_world s) = (Finished, s')"
    "world s' = w'" by (auto elim: body_unlogged)
  then show ?thesis
    using worker_finishes worker_step.worker_finishes [of i s m ?body s'] by (auto simp: unlogged_def set_worker_def)
next
  case (worker_crashes m w')
  then obtain s' where "run_state (?body (int i + 1) m) (po_world s) = (Crashed, s')"
    "world s' = w'" by (auto elim: body_unlogged)
  then show ?thesis
    using worker_crashes worker_step.worker_crashes [of i s m ?body s'] by (auto simp: unlogged_def set_worker_def)
next
  case worker_returns
  then show ?thesis using worker_step.worker_returns [of i s ?body] by (auto simp: unlogged_def set_worker_def)
qed

lemma env_step_unlogged:
  assumes "env_step (unlogged s) u"
  shows "\<exists>t. outside_step s t \<and> unlogged t = u"
  using assms
proof (elim env_stepE)
  assume "u = unlogged s\<lparr>po_cancelled := True\<rparr>"
  then show ?thesis by (intro exI [of _ "s\<lparr>po_cancelled := True\<rparr>"]) (simp add: unlogged_def outside_cancels)
next
  fix w assume "u = unlogged s\<lparr>po_world := w\<rparr>"
  then show ?thesis
    by (intro exI [of _ "s\<lparr>po_world := (po_world s)\<lparr>world := w\<rparr>\<rparr>"]) (simp add: unlogged_def outside_acts)
qed

lemma step_unlogged:
  assumes "consumer_step rt c (unlogged s) u"
  shows "\<exists>t. logged_step rt c s t \<and> unlogged t = u"
  using assms [unfolded any_step_def own_step_def]
proof (elim disjE exE)
  assume "fetch_step c (unlogged s) u"
  from fetch_step_unlogged [OF this] show ?thesis unfolding logged_step_def own_step_def by blast
next
  fix i assume "worker_step (worker_body rt c) i (unlogged s) u"
  from worker_step_unlogged [OF this] show ?thesis unfolding logged_step_def own_step_def by blast
next
  assume "env_step (unlogged s) u"
  from env_step_unlogged [OF this] show ?thesis unfolding logged_step_def own_step_def by blast
qed

lemma init_unlogged:
  assumes "pool_init c u"
  shows "\<exists>s. logged_init c s \<and> unlogged s = u"
proof -
  obtain w w' where *: "run_state (store_CreateGroup (c_store c) MainCtx (c_stream c) (c_group c)) w = (None, w')"
    "chan_allowed (chan_cap c)" "u = started_pool FLoop (c_workerCount c) w'"
    using assms by (auto simp: pool_init_def Start_started)
  let ?s = "started_pool FLoop (c_workerCount c) \<lparr>calls = [CCreateGroup MainCtx (c_stream c) (c_group c) None], world = w'\<rparr>"
  have "Start (spy_consumer c) \<lparr>calls = [], world = w\<rparr> = Started ?s" using * by (simp add: Start_started run_spy)
  moreover have "unlogged ?s = u" using * by (simp add: unlogged_def started_pool_def)
  ultimately show ?thesis unfolding logged_init_def by blast
qed

lemma reachable_unlogged:
  "reachable (pool_init c) (consumer_step rt c) u \<Longrightarrow> \<exists>s. reachable (logged_init c) (logged_step rt c) s \<and> unlogged s = u"
proof (induction rule: reachable.induct)
  case (initial s)
  then show ?case using init_unlogged reachable.initial by metis
next
  case (successor s t)
  then show ?case using step_unlogged reachable.successor by metis
qed

subsection \<open>Properties\<close>

lemma runs_messages: "mset (map br_message rs) = mset (finished_messages rs) + mset (crashed_messages rs)"
  by (induction rs) (auto simp: finished_messages_def crashed_messages_def)

lemma logged_messages:
  assumes "reachable (logged_init c) (logged_step rt c) s"
  obtains rs where "log_explained c rs s"
    and "po_fetched s = po_taken s @ po_chan s @ in_hand (po_fetcher s) @ po_dropped s"
    and "mset (po_taken s) = mset (map br_message rs) + busy (po_workers s)"
proof -
  have "logged_inv c s" by (rule logged.reachable_inv [OF assms])
  then obtain rs where rs: "log_explained c rs s"
    and inv: "pool_inv in_hand (\<lambda>f. f = FReturned) (chan_cap c) (nat (sint (c_workerCount c))) s"
    unfolding logged_inv_def by blast
  have "mset (map br_message rs) = mset (po_finished s) + mset (po_crashed s)"
    using rs by (simp only: runs_messages log_explained_def)
  with rs inv show thesis by (intro that [of rs]) (simp_all add: pool_inv_def)
qed

text \<open>
  C5: The consumer's whole log. Whatever the collaborators answer and however the goroutines and the
  environment interleave, the calls the consumer has made since its start are the creation of its
  group, the fetcher's reads, and whole runs of the handler, each allowed by the specification
  message_trace for its message and followed by the panic counter exactly if it panicked; the
  runs that ended are, in this order, the finished and the crashed messages of the pool; and the
  messages the reads returned are those of the runs, those in workers' hands, those in the channel,
  those the fetcher holds and those it dropped.
\<close>

theorem pool_work_log:
  assumes "reachable (logged_init c) (logged_step rt c) s"
  shows "\<exists>rs. handler_log (pool_log s) = CCreateGroup MainCtx (c_stream c) (c_group c) None # concat (map run_calls rs) \<and>
    list_all (\<lambda>r. message_trace c Background (br_worker r) (br_message r) (br_trace r) (br_fate r)) rs \<and>
    finished_messages rs = po_finished s \<and> crashed_messages rs = po_crashed s \<and>
    mset (concat (map read_messages (pool_log s))) = mset (map br_message rs) + busy (po_workers s) +
      mset (po_chan s) + mset (in_hand (po_fetcher s)) + mset (po_dropped s)"
proof -
  obtain rs where rs: "log_explained c rs s"
    "po_fetched s = po_taken s @ po_chan s @ in_hand (po_fetcher s) @ po_dropped s"
    "mset (po_taken s) = mset (map br_message rs) + busy (po_workers s)"
    by (rule logged_messages [OF assms])
  moreover from rs(1) have "list_all (\<lambda>r. message_trace c Background (br_worker r) (br_message r) (br_trace r) (br_fate r)) rs"
    by (auto simp: log_explained_def run_allowed_def list_all_iff)
  ultimately show ?thesis by (intro exI [of _ rs]) (simp add: log_explained_def)
qed

text \<open>A logged pool with one worker that has finished one message, and one whose worker crashed.\<close>

lemma logged_demo:
  assumes "reachable (pool_init c) (consumer_step rt c) (demo f ch wk cancelled fe ta fi cr)"
  shows "\<exists>s. reachable (logged_init c) (logged_step rt c) s \<and> po_finished s = fi \<and> po_crashed s = cr \<and> po_fetched s = fe"
  using reachable_unlogged [OF assms] by (auto simp: unlogged_def demo_def)

theorem pool_work_log_witness:
  "\<exists>s rs. reachable (logged_init (demo_consumer panicking_processor)) (logged_step mock_runtime (demo_consumer panicking_processor)) s \<and>
     handler_log (pool_log s) = CCreateGroup MainCtx ''test-stream'' ''test-group'' None # concat (map run_calls rs) \<and>
     crashed_messages rs = [null_msg] \<and> finished_messages rs = []"
proof -
  let ?c = "demo_consumer panicking_processor"
  obtain s where s: "reachable (logged_init ?c) (logged_step mock_runtime ?c) s" "po_finished s = []" "po_crashed s = [null_msg]"
    using logged_demo [OF demo_dead] by blast
  moreover have "c_stream ?c = ''test-stream''" "c_group ?c = ''test-group''" by (simp_all add: demo_consumer_def mock_defs)
  ultimately show ?thesis using pool_work_log [OF s(1)] by metis
qed

lemma run_acks_or_fails:
  assumes "message_trace c ctx w m tr ft"
  shows "(\<exists>r. CAck Background (c_stream c) (c_group c) (MsgID m) r \<in> set tr) \<or> ft = Panicking \<or>
    (\<exists>st t e. CAdd Background st t (Inl e) \<in> set tr)"
  using assms by (cases rule: message_trace_elim) (fastforce elim!: failure_trace_cases)+

lemma ack_names_message:
  assumes "message_trace c ctx w m tr ft" and "CAck x st g mid r \<in> set tr"
  shows "mid = MsgID m \<and> ft \<noteq> Panicking"
  using assms by (cases rule: message_trace_elim) (auto elim!: failure_trace_cases gate_traceE)

text \<open>
  C4: At least once, for the consumer as a whole. A message that any read returned is still in the
  channel, in the fetcher's or a worker's hands or dropped at the shutdown, or a run of the handler
  on it is in the log, and that run acknowledged it unless the processor panicked or the write-back
  failed. And the consumer never acknowledges anything else: an acknowledgement in the log is for a
  message that a read returned and a worker finished.
\<close>

theorem fetched_message_fate:
  assumes "reachable (logged_init c) (logged_step rt c) s"
  shows "list_all (\<lambda>m. m \<in> set (po_chan s) \<or> m \<in> set (in_hand (po_fetcher s)) \<or> m \<in> set (po_dropped s) \<or>
      m \<in># busy (po_workers s) \<or>
      (\<exists>w tr ft. message_trace c Background w m tr ft \<and> set tr \<subseteq> set (pool_log s) \<and>
         ((\<exists>r. CAck Background (c_stream c) (c_group c) (MsgID m) r \<in> set tr) \<or> ft = Panicking \<or>
          (\<exists>st t e. CAdd Background st t (Inl e) \<in> set tr))))
    (concat (map read_messages (pool_log s))) \<and>
    list_all (\<lambda>x. case x of
        CAck ctx st g mid r \<Rightarrow> \<exists>m. m \<in> set (po_finished s) \<and> m \<in> set (concat (map read_messages (pool_log s))) \<and> MsgID m = mid
      | _ \<Rightarrow> True) (pool_log s)"
proof -
  obtain rs where rs: "log_explained c rs s"
    and fetched: "po_fetched s = po_taken s @ po_chan s @ in_hand (po_fetcher s) @ po_dropped s"
    and taken: "mset (po_taken s) = mset (map br_message rs) + busy (po_workers s)"
    by (rule logged_messages [OF assms])
  have all: "concat (map read_messages (pool_log s)) = po_fetched s" using rs by (simp add: log_explained_def)
  have log: "set (handler_log (pool_log s)) = insert (CCreateGroup MainCtx (c_stream c) (c_group c) None) (\<Union>r\<in>set rs. set (run_calls r))"
    using rs by (simp add: log_explained_def)
  have ok: "message_trace c Background (br_worker r) (br_message r) (br_trace r) (br_fate r)" if "r \<in> set rs" for r
    using rs that by (auto simp: log_explained_def run_allowed_def list_all_iff)
  have in_log: "set (br_trace r) \<subseteq> set (pool_log s)" if "r \<in> set rs" for r
    using log that by (auto simp: handler_log_def run_calls_def)
  have "set (po_taken s) = br_message ` set rs \<union> set_mset (busy (po_workers s))"
    using arg_cong [OF taken, of set_mset] by simp
  then have "list_all (\<lambda>m. m \<in> set (po_chan s) \<or> m \<in> set (in_hand (po_fetcher s)) \<or> m \<in> set (po_dropped s) \<or>
      m \<in># busy (po_workers s) \<or> m \<in> br_message ` set rs) (po_fetched s)"
    unfolding fetched by (auto simp: list_all_iff)
  then have 1: "list_all (\<lambda>m. m \<in> set (po_chan s) \<or> m \<in> set (in_hand (po_fetcher s)) \<or> m \<in> set (po_dropped s) \<or>
      m \<in># busy (po_workers s) \<or>
      (\<exists>w tr ft. message_trace c Background w m tr ft \<and> set tr \<subseteq> set (pool_log s) \<and>
         ((\<exists>r. CAck Background (c_stream c) (c_group c) (MsgID m) r \<in> set tr) \<or> ft = Panicking \<or>
          (\<exists>st t e. CAdd Background st t (Inl e) \<in> set tr)))) (po_fetched s)"
    by (rule list.pred_mono_strong) (use ok in_log run_acks_or_fails in blast)
  have "\<exists>m. m \<in> set (po_finished s) \<and> m \<in> set (po_fetched s) \<and> MsgID m = mid" if "CAck ctx st g mid r \<in> set (pool_log s)" for ctx st g mid r
  proof -
    have "CAck ctx st g mid r \<in> set (handler_log (pool_log s))" using that by (simp add: handler_log_def)
    then obtain b where b: "b \<in> set rs" "CAck ctx st g mid r \<in> set (br_trace b)"
      unfolding log by (auto simp: run_calls_def split: if_splits)
    then have "mid = MsgID (br_message b)" "br_fate b \<noteq> Panicking" using ack_names_message [OF ok] by blast+
    moreover from this b(1) have "br_message b \<in> set (finished_messages rs)" by (simp add: finished_messages_def)
    moreover have "br_message b \<in> set (po_taken s)" using arg_cong [OF taken, of set_mset] b(1) by auto
    ultimately show ?thesis using fetched rs by (auto simp: log_explained_def)
  qed
  then have "list_all (\<lambda>x. case x of
        CAck ctx st g mid r \<Rightarrow> \<exists>m. m \<in> set (po_finished s) \<and> m \<in> set (po_fetched s) \<and> MsgID m = mid
      | _ \<Rightarrow> True) (pool_log s)"
    unfolding list_all_iff by (auto split: call.splits)
  with 1 show ?thesis unfolding all by blast
qed

theorem fetched_message_fate_witness:
  "\<exists>s. reachable (logged_init (demo_consumer (mock_processor None))) (logged_step mock_runtime (demo_consumer (mock_processor None))) s \<and>
     po_finished s = [null_msg] \<and>
     list_all (\<lambda>x. case x of CAck ctx st g mid r \<Rightarrow> mid = ''1-0'' | _ \<Rightarrow> True) (pool_log s)"
proof -
  let ?c = "demo_consumer (mock_processor None)"
  obtain s where s: "reachable (logged_init ?c) (logged_step mock_runtime ?c) s" "po_finished s = [null_msg]"
    using logged_demo [OF demo_returned] by blast
  have "list_all (\<lambda>x. case x of CAck ctx st g mid r \<Rightarrow> mid = ''1-0'' | _ \<Rightarrow> True) (pool_log s)"
    using conjunct2 [OF fetched_message_fate [OF s(1)]] s(2)
    by (auto simp: list_all_iff null_msg_def split: call.splits)
  with s show ?thesis by blast
qed

end
