(* ===== verification/Interleaved_Pool.thy ===== *)
theory Interleaved_Pool
  imports Handler_Steps Pool_Log
begin

section \<open>The pool with its handlers interleaved call by call\<close>

text \<open>
  In \<open>Consumer_Pool\<close> a worker's handler is one step. Here it is as many steps as it makes calls:
  a worker with a message holds the rest of its handler's program (\<open>Handler_Steps\<close>), and between two
  of its calls every other worker, the fetcher and the environment may move. The pool's own fields,
  the fetcher and the contract of both are those of \<open>Worker_Pool\<close>.

  \<open>th_calls\<close> (the calls of the run so far), \<open>th_left\<close> (a bound on the calls to come) and \<open>th_runs\<close>
  (worker, message and calls of the runs that ended) are history.
\<close>

record 'w threads =
  th_pool :: "'w consumer_pool"
  th_progs :: "nat \<Rightarrow> outcome steps"
  th_calls :: "nat \<Rightarrow> call list"
  th_left :: "nat \<Rightarrow> nat"
  th_runs :: "(int \<times> stream_message \<times> call list) list"

abbreviation th_workers :: "'w threads \<Rightarrow> worker list" where
  "th_workers s \<equiv> po_workers (th_pool s)"

inductive thread_step :: "'w runtime \<Rightarrow> 'w consumer \<Rightarrow> nat \<Rightarrow> 'w threads \<Rightarrow> 'w threads \<Rightarrow> bool" for rt c i where
  thread_takes: "i < length (th_workers s) \<Longrightarrow> th_workers s ! i = WWaiting \<Longrightarrow> po_chan (th_pool s) = m # ch \<Longrightarrow>
    thread_step rt c i s (s\<lparr>th_pool := set_worker i (WBusy m) ((th_pool s)\<lparr>po_chan := ch, po_taken := po_taken (th_pool s) @ [m]\<rparr>),
      th_progs := (th_progs s)(i := body_steps c (int i + 1) m), th_calls := (th_calls s)(i := []), th_left := (th_left s)(i := 14)\<rparr>)"
| thread_calls: "i < length (th_workers s) \<Longrightarrow> th_workers s ! i = WBusy m \<Longrightarrow> \<nexists>x. th_progs s i = Done x \<Longrightarrow>
    run_state (next_call rt c (th_progs s i)) (po_world (th_pool s)) = ((cs, q), w') \<Longrightarrow>
    thread_step rt c i s (s\<lparr>th_pool := (th_pool s)\<lparr>po_world := w'\<rparr>, th_progs := (th_progs s)(i := q),
      th_calls := (th_calls s)(i := th_calls s i @ cs), th_left := (th_left s)(i := th_left s i - 1)\<rparr>)"
| thread_finishes: "i < length (th_workers s) \<Longrightarrow> th_workers s ! i = WBusy m \<Longrightarrow> th_progs s i = Done Finished \<Longrightarrow>
    thread_step rt c i s (s\<lparr>th_pool := set_worker i WWaiting ((th_pool s)\<lparr>po_finished := po_finished (th_pool s) @ [m]\<rparr>),
      th_runs := th_runs s @ [(int i + 1, m, th_calls s i)]\<rparr>)"
| thread_crashes: "i < length (th_workers s) \<Longrightarrow> th_workers s ! i = WBusy m \<Longrightarrow> th_progs s i = Done Crashed \<Longrightarrow>
    thread_step rt c i s (s\<lparr>th_pool := set_worker i WDead ((th_pool s)\<lparr>po_crashed := po_crashed (th_pool s) @ [m]\<rparr>),
      th_runs := th_runs s @ [(int i + 1, m, th_calls s i)]\<rparr>)"
| thread_returns: "i < length (th_workers s) \<Longrightarrow> th_workers s ! i = WWaiting \<Longrightarrow> po_chan (th_pool s) = [] \<Longrightarrow>
    po_closed (th_pool s) \<Longrightarrow> thread_step rt c i s (s\<lparr>th_pool := set_worker i WReturned (th_pool s)\<rparr>)"

inductive_cases thread_stepE: "thread_step rt c i s t"

definition threads_init :: "'w consumer \<Rightarrow> 'w threads \<Rightarrow> bool" where
  "threads_init c s \<longleftrightarrow> pool_init c (th_pool s) \<and> th_runs s = []"

definition threads_own :: "'w runtime \<Rightarrow> 'w consumer \<Rightarrow> 'w threads \<Rightarrow> 'w threads \<Rightarrow> bool" where
  "threads_own rt c s t \<longleftrightarrow> (\<exists>p. fetch_step c (th_pool s) p \<and> t = s\<lparr>th_pool := p\<rparr>) \<or> (\<exists>i. thread_step rt c i s t)"

definition threads_step :: "'w runtime \<Rightarrow> 'w consumer \<Rightarrow> 'w threads \<Rightarrow> 'w threads \<Rightarrow> bool" where
  "threads_step rt c s t \<longleftrightarrow> threads_own rt c s t \<or> (\<exists>p. env_step (th_pool s) p \<and> t = s\<lparr>th_pool := p\<rparr>)"

subsection \<open>The invariant\<close>

definition runs_explained :: "'w consumer \<Rightarrow> body_run list \<Rightarrow> 'w threads \<Rightarrow> bool" where
  "runs_explained c rs s \<longleftrightarrow> list_all (run_allowed c) rs \<and>
     map (\<lambda>r. (br_worker r, br_message r, run_calls r)) rs = th_runs s \<and>
     finished_messages rs = po_finished (th_pool s) \<and> crashed_messages rs = po_crashed (th_pool s)"

definition thread_ok :: "'w consumer \<Rightarrow> 'w threads \<Rightarrow> nat \<Rightarrow> bool" where
  "thread_ok c s i \<longleftrightarrow> (case th_workers s ! i of
     WBusy m \<Rightarrow> runs (body_steps c (int i + 1) m) (th_calls s i) (th_progs s i) \<and> within (th_progs s i) (th_left s i)
   | _ \<Rightarrow> True)"

definition threads_inv :: "'w consumer \<Rightarrow> 'w threads \<Rightarrow> bool" where
  "threads_inv c s \<longleftrightarrow> pool_inv in_hand (\<lambda>f. f = FReturned) (chan_cap c) (nat (sint (c_workerCount c))) (th_pool s) \<and>
     (\<forall>i < length (th_workers s). thread_ok c s i) \<and> (\<exists>rs. runs_explained c rs s)"

text \<open>A run of the body that has ended, whatever the answers were.\<close>

lemma body_run:
  assumes "runs (body_steps c w m) tr (Done oc)"
  obtains r where "tr = run_calls r" and "br_worker r = w" and "br_message r = m"
    and "message_trace c Background w m (br_trace r) (br_fate r)" and "oc = outcome_of (br_fate r)"
proof -
  have "produces (body_steps c w m) (\<lambda>oc tr. \<exists>r. tr = run_calls r \<and> br_worker r = w \<and> br_message r = m \<and>
         message_trace c Background w m (br_trace r) (br_fate r) \<and> oc = outcome_of (br_fate r))"
    unfolding body_steps_def
  proof (rule produces_message)
    fix tr ft assume tr: "message_trace c Background w m tr ft"
    let ?r = "\<lparr>br_worker = w, br_message = m, br_trace = tr, br_fate = ft\<rparr>"
    show "produces (case outcome_of ft of Finished \<Rightarrow> Done Finished | Crashed \<Rightarrow> DoInc WorkerPanicsTotal (Done Crashed))
      (\<lambda>oc tr'. \<exists>r. tr @ tr' = run_calls r \<and> br_worker r = w \<and> br_message r = m \<and>
         message_trace c Background w m (br_trace r) (br_fate r) \<and> oc = outcome_of (br_fate r))"
      using tr by (auto simp: outcome_of_def run_calls_def intro!: produces_calls produces_Done exI [of _ ?r])
  qed
  then show thesis using assms that unfolding produces_def by blast
qed

lemma thread_pool:
  assumes "thread_step rt c i s t"
  shows "(\<exists>b. worker_step b i (th_pool s) (th_pool t)) \<or> (\<exists>w. th_pool t = (th_pool s)\<lparr>po_world := w\<rparr>)"
  using assms
proof cases
  case (thread_takes m ch)
  then show ?thesis using worker_takes [of i "th_pool s" m ch] by auto
next
  case (thread_finishes m)
  then show ?thesis
    using worker_finishes [of i "th_pool s" m "\<lambda>_ _. State_Monad.return Finished" "po_world (th_pool s)"] by auto
next
  case (thread_crashes m)
  then show ?thesis
    using worker_crashes [of i "th_pool s" m "\<lambda>_ _. State_Monad.return Crashed" "po_world (th_pool s)"] by auto
next
  case thread_returns
  then show ?thesis using worker_returns [of i "th_pool s"] by auto
qed auto

lemma thread_step_pool_inv:
  assumes "thread_step rt c i s t" and "pool_inv in_hand (\<lambda>f. f = FReturned) (chan_cap c) n (th_pool s)"
  shows "pool_inv in_hand (\<lambda>f. f = FReturned) (chan_cap c) n (th_pool t)"
  using thread_pool [OF assms(1)] worker_step_inv [OF _ assms(2)] assms(2)
  by (auto simp: pool_inv_def)

lemma thread_step_ok:
  assumes "thread_step rt c i s t" and ok: "\<forall>j < length (th_workers s). thread_ok c s j"
  shows "\<forall>j < length (th_workers t). thread_ok c t j"
proof (intro allI impI)
  fix j assume j: "j < length (th_workers t)"
  have len: "length (th_workers t) = length (th_workers s)"
    using assms(1) by cases (simp_all add: set_worker_def)
  have other: "thread_ok c t j" if "j \<noteq> i"
  proof -
    have "thread_ok c s j" using ok j len by simp
    with assms(1) that show ?thesis
      by cases (simp_all add: thread_ok_def set_worker_def split: worker.splits)
  qed
  show "thread_ok c t j"
  proof (cases "j = i")
    case True
    from assms(1) show ?thesis
    proof cases
      case (thread_takes m ch)
      then show ?thesis using True by (simp add: thread_ok_def set_worker_def runs_start within_body)
    next
      case (thread_calls m cs q w')
      have "takes_call (th_progs s i) cs q" using next_call_taken [OF thread_calls(5,4)] .
      moreover have "runs (body_steps c (int i + 1) m) (th_calls s i) (th_progs s i)" "within (th_progs s i) (th_left s i)"
        using ok thread_calls(2,3) by (auto simp: thread_ok_def)
      ultimately have "runs (body_steps c (int i + 1) m) (th_calls s i @ cs) q" "within q (th_left s i - 1)"
        using within_call by (blast intro: runs_call)+
      then show ?thesis using True thread_calls by (simp add: thread_ok_def)
    qed (use True in \<open>simp_all add: thread_ok_def set_worker_def\<close>)
  qed (rule other)
qed

lemma thread_step_explained:
  assumes "thread_step rt c i s t" and "thread_ok c s i" and rs: "runs_explained c rs s"
    and "int (length (th_workers s)) \<le> max 0 (sint (c_workerCount c))"
  shows "\<exists>rs. runs_explained c rs t"
  using assms(1)
proof cases
  case (thread_finishes m)
  then have "runs (body_steps c (int i + 1) m) (th_calls s i) (Done Finished)" using assms(2) by (simp add: thread_ok_def)
  then obtain r where r: "th_calls s i = run_calls r" "br_worker r = int i + 1" "br_message r = m"
    "message_trace c Background (int i + 1) m (br_trace r) (br_fate r)" "Finished = outcome_of (br_fate r)"
    by (rule body_run)
  have "runs_explained c (rs @ [r]) t"
    using thread_finishes r rs assms(4)
    by (auto simp: runs_explained_def set_worker_def run_allowed_def finished_messages_def crashed_messages_def outcome_of_def
        split: if_splits)
  then show ?thesis ..
next
  case (thread_crashes m)
  then have "runs (body_steps c (int i + 1) m) (th_calls s i) (Done Crashed)" using assms(2) by (simp add: thread_ok_def)
  then obtain r where r: "th_calls s i = run_calls r" "br_worker r = int i + 1" "br_message r = m"
    "message_trace c Background (int i + 1) m (br_trace r) (br_fate r)" "Crashed = outcome_of (br_fate r)"
    by (rule body_run)
  have "runs_explained c (rs @ [r]) t"
    using thread_crashes r rs assms(4)
    by (auto simp: runs_explained_def set_worker_def run_allowed_def finished_messages_def crashed_messages_def outcome_of_def
        split: if_splits)
  then show ?thesis ..
qed (use rs in \<open>auto simp: runs_explained_def set_worker_def\<close>)

lemma threads_start_inv: "threads_init c s \<Longrightarrow> threads_inv c s"
proof -
  assume init: "threads_init c s"
  then have start: "pool_init c (th_pool s)" and "th_runs s = []" by (simp_all add: threads_init_def)
  moreover have "po_finished (th_pool s) = [] \<and> po_crashed (th_pool s) = [] \<and> list_all (\<lambda>x. x = WWaiting) (th_workers s)"
    using start by (auto simp: pool_init_def Start_started started_pool_def list_all_iff)
  ultimately show ?thesis
    using pool.pool_start_inv [OF start]
    by (auto simp: threads_inv_def thread_ok_def list_all_length runs_explained_def finished_messages_def crashed_messages_def)
qed

lemma threads_step_inv:
  assumes "threads_step rt c s t" and inv: "threads_inv c s"
  shows "threads_inv c t"
proof -
  have pinv: "pool_inv in_hand (\<lambda>f. f = FReturned) (chan_cap c) (nat (sint (c_workerCount c))) (th_pool s)"
    and ok: "\<forall>i < length (th_workers s). thread_ok c s i"
    using inv by (simp_all add: threads_inv_def)
  obtain rs where rs: "runs_explained c rs s" using inv by (auto simp: threads_inv_def)
  have keep: "threads_inv c (s\<lparr>th_pool := p\<rparr>)"
    if "pool_inv in_hand (\<lambda>f. f = FReturned) (chan_cap c) (nat (sint (c_workerCount c))) p"
      "po_workers p = th_workers s" "po_finished p = po_finished (th_pool s)" "po_crashed p = po_crashed (th_pool s)" for p
    using that ok rs by (auto simp: threads_inv_def thread_ok_def runs_explained_def split: worker.splits)
  show ?thesis
    using assms(1) unfolding threads_step_def threads_own_def
  proof (elim disjE exE conjE)
    fix p assume "fetch_step c (th_pool s) p" and t: "t = s\<lparr>th_pool := p\<rparr>"
    then have "fetch_effect in_hand (\<lambda>f. f = FReturned) (chan_cap c) (th_pool s) p" by (intro fetch_step_effect)
    then show ?thesis
      unfolding t using fetch_effect_inv [OF _ pinv] by (intro keep) (auto elim: fetch_effectE)
  next
    fix i assume step: "thread_step rt c i s t"
    then have i: "i < length (th_workers s)" by cases
    have "\<exists>rs. runs_explained c rs t"
      using thread_step_explained [OF step _ rs] ok i pinv by (simp add: pool_inv_def)
    then show ?thesis
      using thread_step_ok [OF step ok] thread_step_pool_inv [OF step pinv] by (simp add: threads_inv_def)
  next
    fix p assume "env_step (th_pool s) p" and t: "t = s\<lparr>th_pool := p\<rparr>"
    then show ?thesis
      unfolding t using env_step_inv [OF _ pinv] by (intro keep) (auto elim: env_stepE)
  qed
qed

subsection \<open>Shutdown\<close>

definition thread_weight :: "'w threads \<Rightarrow> nat \<Rightarrow> nat" where
  "thread_weight s i = (case th_workers s ! i of WBusy m \<Rightarrow> th_left s i + 2 | WWaiting \<Rightarrow> 1 | _ \<Rightarrow> 0)"

definition threads_rank :: "'w threads \<Rightarrow> nat \<times> nat" where
  "threads_rank s = (fetcher_rank (po_fetcher (th_pool s)),
     18 * length (in_hand (po_fetcher (th_pool s))) + 17 * length (po_chan (th_pool s)) +
     (\<Sum>i<length (th_workers s). thread_weight s i))"

lemma weight_pool: "po_workers p = th_workers s \<Longrightarrow> thread_weight (s\<lparr>th_pool := p\<rparr>) i = thread_weight s i"
  by (simp add: thread_weight_def split: worker.split)

lemma weight_sum:
  fixes f g :: "nat \<Rightarrow> nat"
  assumes "i < n" and "\<And>j. j \<noteq> i \<Longrightarrow> f j = g j"
  shows "(\<Sum>j<n. f j) + g i = (\<Sum>j<n. g j) + f i"
proof -
  have split: "(\<Sum>j<n. h j) = h i + (\<Sum>j\<in>{..<n} - {i}. h j)" for h :: "nat \<Rightarrow> nat"
    by (rule sum.remove) (use assms(1) in auto)
  have "(\<Sum>j\<in>{..<n} - {i}. f j) = (\<Sum>j\<in>{..<n} - {i}. g j)"
    by (rule sum.cong) (use assms(2) in auto)
  with split [of f] split [of g] show ?thesis by simp
qed

lemma thread_step_rank:
  assumes "thread_step rt c i s t" and "thread_ok c s i"
  shows "(threads_rank t, threads_rank s) \<in> less_than <*lex*> less_than"
proof -
  have i: "i < length (th_workers s)" and len: "length (th_workers t) = length (th_workers s)"
    using assms(1) by (cases; simp add: set_worker_def)+
  have other: "thread_weight t j = thread_weight s j" if "j \<noteq> i" for j
    using assms(1) that by cases (simp_all add: thread_weight_def set_worker_def split: worker.split)
  have sum: "(\<Sum>j<length (th_workers s). thread_weight t j) + thread_weight s i =
      (\<Sum>j<length (th_workers s). thread_weight s j) + thread_weight t i"
    using i other by (rule weight_sum)
  from assms(1) show ?thesis
  proof cases
    case (thread_takes m ch)
    then have "thread_weight t i = 16" "thread_weight s i = 1" by (simp_all add: thread_weight_def set_worker_def)
    then show ?thesis using thread_takes sum len by (simp add: threads_rank_def set_worker_def)
  next
    case (thread_calls m cs q w')
    have "th_left s i \<noteq> 0"
      using assms(2) thread_calls(3) within_call [OF _ next_call_taken [OF thread_calls(5,4)]] by (auto simp: thread_ok_def)
    then have "thread_weight t i < thread_weight s i" using thread_calls by (simp add: thread_weight_def)
    then show ?thesis using thread_calls sum len by (simp add: threads_rank_def)
  next
    case (thread_finishes m)
    then have "thread_weight t i < thread_weight s i" by (simp add: thread_weight_def set_worker_def)
    then show ?thesis using thread_finishes sum len by (simp add: threads_rank_def set_worker_def)
  next
    case (thread_crashes m)
    then have "thread_weight t i < thread_weight s i" by (simp add: thread_weight_def set_worker_def)
    then show ?thesis using thread_crashes sum len by (simp add: threads_rank_def set_worker_def)
  next
    case thread_returns
    then have "thread_weight t i < thread_weight s i" by (simp add: thread_weight_def set_worker_def)
    then show ?thesis using thread_returns sum len by (simp add: threads_rank_def set_worker_def)
  qed
qed

lemma fetch_step_threads_rank:
  assumes "fetch_step c p q" and "po_cancelled p"
  shows "fetcher_rank (po_fetcher q) < fetcher_rank (po_fetcher p) \<or>
    fetcher_rank (po_fetcher q) = fetcher_rank (po_fetcher p) \<and>
    18 * length (in_hand (po_fetcher q)) + 17 * length (po_chan q) < 18 * length (in_hand (po_fetcher p)) + 17 * length (po_chan p)"
  using assms by cases (simp_all add: fetcher_returns_def)

lemma threads_own_rank:
  assumes "threads_own rt c s t" and "threads_inv c s" and "po_cancelled (th_pool s)"
  shows "(threads_rank t, threads_rank s) \<in> less_than <*lex*> less_than"
  using assms(1) unfolding threads_own_def
proof (elim disjE exE conjE)
  fix p assume step: "fetch_step c (th_pool s) p" and t: "t = s\<lparr>th_pool := p\<rparr>"
  have "po_workers p = th_workers s" using pool.fetch_keeps_workers [OF step] .
  then have "(\<Sum>i<length (th_workers t). thread_weight t i) = (\<Sum>i<length (th_workers s). thread_weight s i)"
    unfolding t by (simp add: weight_pool)
  then show ?thesis using fetch_step_threads_rank [OF step assms(3)] t by (auto simp: threads_rank_def)
next
  fix i assume step: "thread_step rt c i s t"
  then have "i < length (th_workers s)" by cases
  then show ?thesis using thread_step_rank [OF step] assms(2) by (simp add: threads_inv_def)
qed

lemma thread_progress:
  assumes "po_closed (th_pool s)" and "i < length (th_workers s)" and "th_workers s ! i \<noteq> WReturned" and "th_workers s ! i \<noteq> WDead"
  shows "\<exists>t. thread_step rt c i s t"
proof (cases "th_workers s ! i")
  case WWaiting
  with assms show ?thesis by (cases "po_chan (th_pool s)") (blast intro: thread_step.intros)+
next
  case (WBusy m)
  show ?thesis
  proof (cases "\<exists>x. th_progs s i = Done x")
    case True
    then obtain oc where "th_progs s i = Done oc" ..
    with WBusy assms(2) show ?thesis by (cases oc) (blast intro: thread_step.intros)+
  next
    case False
    obtain cs q w' where "run_state (next_call rt c (th_progs s i)) (po_world (th_pool s)) = ((cs, q), w')" by (metis surj_pair)
    with False WBusy assms(2) show ?thesis by (blast intro: thread_step.thread_calls)
  qed
qed (use assms in simp_all)

lemma threads_progress:
  assumes "threads_inv c s" and "po_cancelled (th_pool s)" and "\<not> all_returned (\<lambda>f. f = FReturned) (th_pool s)"
  shows "\<exists>t. threads_own rt c s t"
proof (cases "po_fetcher (th_pool s) = FReturned")
  case True
  then obtain i where "i < length (th_workers s)" "th_workers s ! i \<noteq> WReturned" "th_workers s ! i \<noteq> WDead"
    using assms(3) by (auto simp: all_returned_def list_all_length)
  moreover have "po_closed (th_pool s)" using True assms(1) by (simp add: threads_inv_def pool_inv_def)
  ultimately show ?thesis using thread_progress [of s i rt c] unfolding threads_own_def by blast
next
  case False
  then show ?thesis using fetcher_progress [OF assms(2)] unfolding threads_own_def by blast
qed

lemma threads_own_cancelled: "threads_own rt c s t \<Longrightarrow> po_cancelled (th_pool t) = po_cancelled (th_pool s)"
  by (auto simp: threads_own_def set_worker_def fetcher_returns_def elim!: thread_stepE fetch_stepE)

interpretation threads: shutdown "threads_init c" "threads_step rt c" "threads_inv c" "threads_own rt c"
    "\<lambda>s. po_cancelled (th_pool s)" "\<lambda>s. all_returned (\<lambda>f. f = FReturned) (th_pool s)" threads_rank
  for rt c
proof
  fix s t :: "'a threads"
  show "threads_init c s \<Longrightarrow> threads_inv c s" by (rule threads_start_inv)
  show "threads_inv c s \<Longrightarrow> threads_step rt c s t \<Longrightarrow> threads_inv c t" by (rule threads_step_inv)
  show "threads_own rt c s t \<Longrightarrow> threads_step rt c s t" by (simp add: threads_step_def)
  show "po_cancelled (th_pool s) \<Longrightarrow> threads_own rt c s t \<Longrightarrow> po_cancelled (th_pool t)" by (simp add: threads_own_cancelled)
  show "threads_inv c s \<Longrightarrow> po_cancelled (th_pool s) \<Longrightarrow> threads_own rt c s t \<Longrightarrow>
      (threads_rank t, threads_rank s) \<in> less_than <*lex*> less_than" by (rule threads_own_rank)
  show "po_cancelled (th_pool s) \<Longrightarrow> threads_step rt c s t \<Longrightarrow>
      threads_own rt c s t \<or> po_cancelled (th_pool t) \<and> threads_rank t = threads_rank s"
    by (auto simp: threads_step_def threads_rank_def weight_pool elim!: env_stepE)
  show "threads_inv c s \<Longrightarrow> po_cancelled (th_pool s) \<Longrightarrow> \<not> all_returned (\<lambda>f. f = FReturned) (th_pool s) \<Longrightarrow> \<exists>t. threads_own rt c s t"
    by (rule threads_progress)
qed

subsection \<open>The runs of Consumer_Pool are among these\<close>

text \<open>The pool, and every busy worker at the start of its handler.\<close>

definition at_start :: "'w consumer \<Rightarrow> 'w threads \<Rightarrow> bool" where
  "at_start c s \<longleftrightarrow> (\<forall>i m. i < length (th_workers s) \<longrightarrow> th_workers s ! i = WBusy m \<longrightarrow> th_progs s i = body_steps c (int i + 1) m)"

lemma reaches_thread:
  "reachable (threads_init c) (threads_step rt c) s \<Longrightarrow> thread_step rt c i s t \<Longrightarrow> reachable (threads_init c) (threads_step rt c) t"
  by (rule successor [of "threads_init c" "threads_step rt c" s]) (auto simp: threads_step_def threads_own_def)

text \<open>A worker's calls one after the other.\<close>

lemma calls_in_a_row:
  assumes "calls_made rt c q w cs q' w'" and "reachable (threads_init c) (threads_step rt c) s"
    and "i < length (th_workers s)" and "th_workers s ! i = WBusy m" and "th_progs s i = q" and "po_world (th_pool s) = w"
  shows "\<exists>t. reachable (threads_init c) (threads_step rt c) t \<and> th_pool t = (th_pool s)\<lparr>po_world := w'\<rparr> \<and>
    th_progs t = (th_progs s)(i := q')"
  using assms
proof (induction arbitrary: s rule: calls_made.induct)
  case (made_none p w)
  then have "th_pool s = (th_pool s)\<lparr>po_world := w\<rparr>" "th_progs s = (th_progs s)(i := p)" by auto
  then show ?case using made_none(1) by metis
next
  case (made_next p w cs q w1 cs' q' w2)
  let ?t = "s\<lparr>th_pool := (th_pool s)\<lparr>po_world := w1\<rparr>, th_progs := (th_progs s)(i := q),
      th_calls := (th_calls s)(i := th_calls s i @ cs), th_left := (th_left s)(i := th_left s i - 1)\<rparr>"
  have "thread_step rt c i s ?t" by (rule thread_calls [where m = m]) (use made_next in simp_all)
  from made_next.IH [OF reaches_thread [OF made_next(5) this]] made_next(6,7) show ?case
    by (simp add: fun_upd_def cong: if_cong)
qed

lemma handler_in_calls:
  assumes "reachable (threads_init c) (threads_step rt c) s" and "at_start c s"
    and "i < length (th_workers s)" and "th_workers s ! i = WBusy m"
    and "run_state (worker_body rt c (int i + 1) m) (po_world (th_pool s)) = (oc, w')"
  obtains t where "reachable (threads_init c) (threads_step rt c) t" and "th_pool t = (th_pool s)\<lparr>po_world := w'\<rparr>"
    and "th_progs t = (th_progs s)(i := Done oc)"
proof -
  have "th_progs s i = body_steps c (int i + 1) m" using assms(2-4) by (simp add: at_start_def)
  moreover obtain cs where "calls_made rt c (body_steps c (int i + 1) m) (po_world (th_pool s)) cs (Done oc) w'"
    using run_steps_made [of rt c "body_steps c (int i + 1) m" "po_world (th_pool s)"] assms(5) by (auto simp: run_body)
  ultimately show thesis using calls_in_a_row [OF _ assms(1,3,4)] that by blast
qed

lemma worker_step_in_calls:
  assumes s: "reachable (threads_init c) (threads_step rt c) s" "at_start c s"
    and step: "worker_step (worker_body rt c) i (th_pool s) u"
  shows "\<exists>t. reachable (threads_init c) (threads_step rt c) t \<and> at_start c t \<and> th_pool t = u"
  using step
proof cases
  case (worker_takes m ch)
  let ?t = "s\<lparr>th_pool := u, th_progs := (th_progs s)(i := body_steps c (int i + 1) m),
    th_calls := (th_calls s)(i := []), th_left := (th_left s)(i := 14)\<rparr>"
  have "thread_step rt c i s ?t" using thread_takes [OF worker_takes(2-4)] worker_takes(1) by simp
  moreover have "at_start c ?t" using s(2) worker_takes by (auto simp: at_start_def set_worker_def nth_list_update)
  ultimately show ?thesis using reaches_thread [OF s(1)] by (intro exI [of _ ?t]) simp
next
  case (worker_finishes m w')
  obtain t where t: "reachable (threads_init c) (threads_step rt c) t" "th_pool t = (th_pool s)\<lparr>po_world := w'\<rparr>"
    "th_progs t = (th_progs s)(i := Done Finished)"
    by (rule handler_in_calls [OF s worker_finishes(2-4)])
  let ?u = "t\<lparr>th_pool := u, th_runs := th_runs t @ [(int i + 1, m, th_calls t i)]\<rparr>"
  have "thread_step rt c i t ?u" using thread_finishes [of i t m rt c] t worker_finishes by (simp add: set_worker_def)
  moreover have "at_start c ?u" using s(2) t worker_finishes by (auto simp: at_start_def set_worker_def nth_list_update)
  ultimately show ?thesis using reaches_thread [OF t(1)] by (intro exI [of _ ?u]) simp
next
  case (worker_crashes m w')
  obtain t where t: "reachable (threads_init c) (threads_step rt c) t" "th_pool t = (th_pool s)\<lparr>po_world := w'\<rparr>"
    "th_progs t = (th_progs s)(i := Done Crashed)"
    by (rule handler_in_calls [OF s worker_crashes(2-4)])
  let ?u = "t\<lparr>th_pool := u, th_runs := th_runs t @ [(int i + 1, m, th_calls t i)]\<rparr>"
  have "thread_step rt c i t ?u" using thread_crashes [of i t m rt c] t worker_crashes by (simp add: set_worker_def)
  moreover have "at_start c ?u" using s(2) t worker_crashes by (auto simp: at_start_def set_worker_def nth_list_update)
  ultimately show ?thesis using reaches_thread [OF t(1)] by (intro exI [of _ ?u]) simp
next
  case worker_returns
  let ?t = "s\<lparr>th_pool := u\<rparr>"
  have "thread_step rt c i s ?t" using thread_returns [OF worker_returns(2-5)] worker_returns(1) by simp
  moreover have "at_start c ?t" using s(2) worker_returns by (auto simp: at_start_def set_worker_def nth_list_update)
  ultimately show ?thesis using reaches_thread [OF s(1)] by (intro exI [of _ ?t]) simp
qed

lemma pool_runs_interleaved:
  "reachable (pool_init c) (consumer_step rt c) u \<Longrightarrow>
   \<exists>s. reachable (threads_init c) (threads_step rt c) s \<and> at_start c s \<and> th_pool s = u"
proof (induction rule: reachable.induct)
  case (initial u)
  let ?s = "\<lparr>th_pool = u, th_progs = \<lambda>i. Done Finished, th_calls = \<lambda>i. [], th_left = \<lambda>i. 0, th_runs = []\<rparr>"
  have "reachable (threads_init c) (threads_step rt c) ?s"
    by (rule reachable.initial) (use initial in \<open>simp add: threads_init_def\<close>)
  moreover have "at_start c ?s"
    using initial by (auto simp: at_start_def pool_init_def Start_started started_pool_def)
  ultimately show ?case by (intro exI [of _ ?s]) simp
next
  case (successor u v)
  then obtain s where s: "reachable (threads_init c) (threads_step rt c) s" "at_start c s" "th_pool s = u" by blast
  have same: ?case if "threads_step rt c s (s\<lparr>th_pool := v\<rparr>)" "po_workers v = po_workers u"
    using reachable.successor [OF s(1) that(1)] s(2,3) that(2) by (intro exI [of _ "s\<lparr>th_pool := v\<rparr>"]) (simp add: at_start_def)
  from successor(2) show ?case
    unfolding any_step_def own_step_def
  proof (elim disjE exE)
    assume "fetch_step c u v"
    then show ?thesis
      using s(3) pool.fetch_keeps_workers by (intro same) (auto simp: threads_step_def threads_own_def)
  next
    fix i assume "worker_step (worker_body rt c) i u v"
    then show ?thesis using worker_step_in_calls [OF s(1,2)] s(3) by simp
  next
    assume "env_step u v"
    then show ?thesis using s(3) by (intro same) (auto simp: threads_step_def elim: env_stepE)
  qed
qed

subsection \<open>Properties\<close>

text \<open>
  C7: The handler is its calls. Run without a pause the program of calls is the operation of the
  worker, and the calls it makes one by one lead to the same outcome and the same outside state;
  it makes at most fourteen of them; and whatever each call answers, so also when others act on the
  store between two of them, the calls of a run that ends are those the specification of the
  handler allows, with the panic counter after a panic.
\<close>

theorem handler_call_by_call:
  "run_steps rt c (body_steps c w m) = worker_body rt c w m \<and>
   (\<exists>oc cs s'. run_state (worker_body rt c w m) s = (oc, s') \<and> calls_made rt c (body_steps c w m) s cs (Done oc) s') \<and>
   within (body_steps c w m) 14 \<and>
   produces (body_steps c w m) (\<lambda>oc tr. \<exists>tr' ft. message_trace c Background w m tr' ft \<and>
     tr = tr' @ (if ft = Panicking then [CInc WorkerPanicsTotal] else []) \<and> oc = outcome_of ft)"
proof -
  have "\<exists>tr' ft. message_trace c Background w m tr' ft \<and>
      tr = tr' @ (if ft = Panicking then [CInc WorkerPanicsTotal] else []) \<and> oc = outcome_of ft"
    if run: "runs (body_steps c w m) tr (Done oc)" for tr oc
  proof -
    obtain r where r: "tr = run_calls r" "message_trace c Background w m (br_trace r) (br_fate r)" "oc = outcome_of (br_fate r)"
      by (rule body_run [OF run])
    then show ?thesis by (intro exI [of _ "br_trace r"] exI [of _ "br_fate r"]) (simp add: run_calls_def)
  qed
  moreover have "\<exists>oc cs s'. run_state (worker_body rt c w m) s = (oc, s') \<and> calls_made rt c (body_steps c w m) s cs (Done oc) s'"
    using run_steps_made [of rt c "body_steps c w m" s] by (metis run_body)
  ultimately show ?thesis by (simp add: run_body within_body produces_def)
qed

text \<open>
  C6: Interleaving the handlers breaks nothing. With the calls of all workers, the fetcher and the
  environment interleaved in any order, each handler run that has ended made calls its
  specification allows for its message, and ended as its fate says; every fetched message is in
  exactly one place, in order; the runs that ended and those under way are those of the messages
  taken; and the calls of a run under way are the beginning of such a run. Every state the pool of
  whole handlers can reach is also reached here.
\<close>

theorem interleaved_pool_safe:
  assumes "reachable (threads_init c) (threads_step rt c) s"
  shows "(\<exists>rs. list_all (\<lambda>r. message_trace c Background (br_worker r) (br_message r) (br_trace r) (br_fate r)) rs \<and>
      map (\<lambda>r. (br_worker r, br_message r, run_calls r)) rs = th_runs s \<and>
      finished_messages rs = po_finished (th_pool s) \<and> crashed_messages rs = po_crashed (th_pool s)) \<and>
    po_fetched (th_pool s) = po_taken (th_pool s) @ po_chan (th_pool s) @ in_hand (po_fetcher (th_pool s)) @ po_dropped (th_pool s) \<and>
    mset (po_taken (th_pool s)) = mset (map (\<lambda>(w, m, tr). m) (th_runs s)) + busy (po_workers (th_pool s)) \<and>
    list_all (\<lambda>i. case po_workers (th_pool s) ! i of
        WBusy m \<Rightarrow> runs (body_steps c (int i + 1) m) (th_calls s i) (th_progs s i)
      | _ \<Rightarrow> True) [0..<length (po_workers (th_pool s))] \<and>
    {u. reachable (pool_init c) (consumer_step rt c) u} \<subseteq> th_pool ` {s. reachable (threads_init c) (threads_step rt c) s}"
proof -
  have inv: "threads_inv c s" by (rule threads.reachable_inv [OF assms])
  then obtain rs where rs: "runs_explained c rs s" by (auto simp: threads_inv_def)
  then have explained: "list_all (\<lambda>r. message_trace c Background (br_worker r) (br_message r) (br_trace r) (br_fate r)) rs \<and>
      map (\<lambda>r. (br_worker r, br_message r, run_calls r)) rs = th_runs s \<and>
      finished_messages rs = po_finished (th_pool s) \<and> crashed_messages rs = po_crashed (th_pool s)"
    by (auto simp: runs_explained_def run_allowed_def list_all_iff)
  then have "th_runs s = map (\<lambda>r. (br_worker r, br_message r, run_calls r)) rs" by (elim conjE) (rule sym)
  then have "map (\<lambda>(w, m, tr). m) (th_runs s) = map br_message rs" by (simp add: comp_def)
  then have messages: "mset (map (\<lambda>(w, m, tr). m) (th_runs s)) = mset (po_finished (th_pool s)) + mset (po_crashed (th_pool s))"
    using explained by (simp only: runs_messages)
  have "list_all (\<lambda>i. case th_workers s ! i of
      WBusy m \<Rightarrow> runs (body_steps c (int i + 1) m) (th_calls s i) (th_progs s i) | _ \<Rightarrow> True) [0..<length (th_workers s)]"
    using inv by (auto simp: threads_inv_def thread_ok_def list_all_iff split: worker.split)
  moreover have "{u. reachable (pool_init c) (consumer_step rt c) u} \<subseteq> th_pool ` {s. reachable (threads_init c) (threads_step rt c) s}"
    using pool_runs_interleaved [of c rt] by blast
  moreover have "pool_inv in_hand (\<lambda>f. f = FReturned) (chan_cap c) (nat (sint (c_workerCount c))) (th_pool s)"
    using inv by (simp add: threads_inv_def)
  then have "po_fetched (th_pool s) = po_taken (th_pool s) @ po_chan (th_pool s) @ in_hand (po_fetcher (th_pool s)) @ po_dropped (th_pool s)"
    and "mset (po_taken (th_pool s)) = mset (map (\<lambda>(w, m, tr). m) (th_runs s)) + busy (th_workers s)"
    unfolding messages by (simp_all add: pool_inv_def)
  ultimately show ?thesis using explained by (intro conjI exI [of _ rs]) blast+
qed

theorem interleaved_pool_safe_witness:
  "\<exists>s w tr. reachable (threads_init (demo_consumer panicking_processor)) (threads_step mock_runtime (demo_consumer panicking_processor)) s \<and>
     th_runs s = [(w, null_msg, tr)] \<and> po_crashed (th_pool s) = [null_msg]"
proof -
  let ?c = "demo_consumer panicking_processor"
  obtain s where s: "reachable (threads_init ?c) (threads_step mock_runtime ?c) s"
    and pool: "th_pool s = demo (FDispatch []) [] WDead False [null_msg] [null_msg] [] [null_msg]"
    using pool_runs_interleaved [OF demo_dead] by blast
  from interleaved_pool_safe [OF s] have "mset (map (\<lambda>(w, m, tr). m) (th_runs s)) = {#null_msg#}"
    by (simp add: pool demo_def del: mset_map)
  then have "map (\<lambda>(w, m, tr). m) (th_runs s) = [null_msg]" by (simp only: mset_single_iff)
  then have "\<exists>w tr. th_runs s = [(w, null_msg, tr)]" by (auto simp: map_eq_Cons_conv)
  with s pool show ?thesis by (auto simp: demo_def)
qed

text \<open>
  C8: Shutdown with interleaved handlers. Also when every handler can be interrupted between any
  two of its calls, once the context is cancelled the pool always can come to the return of Start,
  its goroutines can make only finitely many calls and steps more, and every fair run with the
  environment comes to the return of Start.
\<close>

theorem interleaved_shutdown_ends:
  assumes "reachable (threads_init c) (threads_step rt c) s" and "po_cancelled (th_pool s)"
  shows "(\<exists>t. (threads_own rt c)\<^sup>*\<^sup>* s t \<and> all_returned (\<lambda>f. f = FReturned) (th_pool t)) \<and>
    \<not> (\<exists>f. f 0 = s \<and> (\<forall>i. threads_own rt c (f i) (f (Suc i)))) \<and>
    \<not> (\<exists>f. f 0 = s \<and> endless_run (threads_step rt c) f \<and> fair_run (threads_own rt c) f \<and>
        (\<forall>i. \<not> all_returned (\<lambda>f. f = FReturned) (th_pool (f i))))"
  by (rule threads.ends) (rule threads.reachable_inv [OF assms(1)], rule assms(2))

theorem interleaved_shutdown_ends_witness:
  "\<exists>s t. reachable (threads_init (demo_consumer (mock_processor None))) (threads_step mock_runtime (demo_consumer (mock_processor None))) s \<and>
     po_workers (th_pool s) = [WBusy null_msg] \<and>
     (threads_own mock_runtime (demo_consumer (mock_processor None)))\<^sup>*\<^sup>* s t \<and> all_returned (\<lambda>f. f = FReturned) (th_pool t)"
proof -
  let ?c = "demo_consumer (mock_processor None)"
  obtain s where s: "reachable (threads_init ?c) (threads_step mock_runtime ?c) s"
    and pool: "th_pool s = demo (FDispatch []) [] (WBusy null_msg) True [null_msg] [null_msg] [] []"
    using pool_runs_interleaved [OF demo_cancelled [of "mock_processor None" mock_runtime]] by blast
  have "po_cancelled (th_pool s)" by (simp add: pool demo_def)
  from interleaved_shutdown_ends [OF s this] s pool show ?thesis by (auto simp: demo_def)
qed

end
