(* ===== verification/Producer.thy ===== *)
theory Producer
  imports Test_Doubles
begin

section \<open>Producers\<close>

text \<open>
  \<open>producer/producer.go\<close> and \<open>producer/priority.go\<close>: enqueueing a task and announcing it, on one
  stream or on the stream of the task's priority. The routing of priorities to streams is an
  interface of its own (\<open>stream_router\<close>), which the priority consumer shares.
\<close>

record 'w producer =
  pr_store :: "'w stream_store"
  pr_publisher :: "'w event_publisher"
  pr_stream :: string

definition new_producer :: "'w stream_store \<Rightarrow> 'w event_publisher \<Rightarrow> string \<Rightarrow> 'w producer" where
  "new_producer store publisher stream = \<lparr>pr_store = store, pr_publisher = publisher, pr_stream = stream\<rparr>"

definition pending_event :: "task \<Rightarrow> event" where
  "pending_event t = \<lparr>EType = ''Pending'', TaskID = ID t, WorkerID = []\<rparr>"

definition Produce :: "'w producer \<Rightarrow> go_ctx \<Rightarrow> task \<Rightarrow> ('w, error + string) state" where
  "Produce p ctx t = do {
     r \<leftarrow> store_Add (pr_store p) ctx (pr_stream p) t;
     (case r of
        Inl err \<Rightarrow> State_Monad.return (Inl err)
      | Inr msgID \<Rightarrow> do {
          _ \<leftarrow> pr_publisher p ctx (pending_event t);
          State_Monad.return (Inr msgID)
        })
   }"

subsection \<open>Routing by priority\<close>

text \<open>
  What a producer and a consumer have to agree on: a stream for every priority string, and the
  list of streams to read, most urgent first. Unknown priorities count as normal.
\<close>

locale stream_router =
  fixes route :: "string \<Rightarrow> string" and streams :: "string list"
  assumes streams_by_level: "streams = map route [PriorityHigh, PriorityNormal, PriorityLow]"
    and levels_apart: "distinct streams"
    and unknown_is_normal: "p \<notin> {PriorityHigh, PriorityLow} \<Longrightarrow> route p = route PriorityNormal"
begin

lemma route_is_read: "route p \<in> set streams"
  using unknown_is_normal [of p] by (cases "p \<in> {PriorityHigh, PriorityLow}") (auto simp: streams_by_level)

lemma route_level:
  "route p = route q \<longleftrightarrow> (p = q \<or> p \<notin> {PriorityHigh, PriorityLow} \<and> q \<notin> {PriorityHigh, PriorityLow})"
  using levels_apart unknown_is_normal [of p] unknown_is_normal [of q]
  unfolding streams_by_level
  by (cases "p = PriorityHigh"; cases "p = PriorityLow"; cases "q = PriorityHigh"; cases "q = PriorityLow") auto

lemma urgency: "streams ! 0 = route PriorityHigh" "streams ! 1 = route PriorityNormal" "streams ! 2 = route PriorityLow"
  by (simp_all add: streams_by_level)

end

record 'w priority_producer =
  pp_store :: "'w stream_store"
  pp_publisher :: "'w event_publisher"
  pp_baseStream :: string

definition new_priority_producer :: "'w stream_store \<Rightarrow> 'w event_publisher \<Rightarrow> string \<Rightarrow> 'w priority_producer" where
  "new_priority_producer store publisher baseStream =
     \<lparr>pp_store = store, pp_publisher = publisher, pp_baseStream = baseStream\<rparr>"

definition pp_streamForPriority :: "'w priority_producer \<Rightarrow> string \<Rightarrow> string" where
  "pp_streamForPriority pp priority =
     (if priority = PriorityHigh then pp_baseStream pp @ ''_high''
      else if priority = PriorityLow then pp_baseStream pp @ ''_low''
      else pp_baseStream pp)"

definition pp_Streams :: "'w priority_producer \<Rightarrow> string list" where
  "pp_Streams pp = [pp_baseStream pp @ ''_high'', pp_baseStream pp, pp_baseStream pp @ ''_low'']"

definition pp_Produce :: "'w priority_producer \<Rightarrow> go_ctx \<Rightarrow> task \<Rightarrow> ('w, error + string) state" where
  "pp_Produce pp ctx t = do {
     let stream = pp_streamForPriority pp (Priority t);
     r \<leftarrow> store_Add (pp_store pp) ctx stream t;
     (case r of
        Inl err \<Rightarrow> State_Monad.return (Inl err)
      | Inr msgID \<Rightarrow> do {
          _ \<leftarrow> pp_publisher pp ctx (pending_event t);
          State_Monad.return (Inr msgID)
        })
   }"

lemma priority_levels [simp]: "PriorityHigh \<noteq> PriorityLow" "PriorityLow \<noteq> PriorityHigh"
  "PriorityNormal \<noteq> PriorityHigh" "PriorityNormal \<noteq> PriorityLow"
  by (simp_all add: PriorityHigh_def PriorityLow_def PriorityNormal_def)

interpretation producer_router: stream_router "pp_streamForPriority pp" "pp_Streams pp" for pp
  by unfold_locales (auto simp: pp_streamForPriority_def pp_Streams_def)

text \<open>A plain producer on the stream of the task's priority does the same.\<close>

lemma pp_Produce_eq:
  "pp_Produce pp ctx t =
     Produce (new_producer (pp_store pp) (pp_publisher pp) (pp_streamForPriority pp (Priority t))) ctx t"
  by (simp add: pp_Produce_def Produce_def new_producer_def cong: sum.case_cong)

subsection \<open>What a producer does, call by call\<close>

definition spy_producer :: "'w producer \<Rightarrow> 'w spied producer" where
  "spy_producer p = new_producer (spy_store (pr_store p)) (spy_publisher (pr_publisher p)) (pr_stream p)"

definition produce_run :: "'w producer \<Rightarrow> go_ctx \<Rightarrow> task \<Rightarrow> 'w \<Rightarrow> (error + string) \<times> call list" where
  "produce_run p ctx t s =
     (case run_state (Produce (spy_producer p) ctx t) \<lparr>calls = [], world = s\<rparr> of (r, s') \<Rightarrow> (r, calls s'))"

lemma produce_run_cases:
  "(\<exists>err. produce_run p ctx t s = (Inl err, [CAdd ctx (pr_stream p) t (Inl err)])) \<or>
   (\<exists>msgID pr. produce_run p ctx t s =
      (Inr msgID, [CAdd ctx (pr_stream p) t (Inr msgID), CPublish ctx (pending_event t) pr]))"
  by (cases "fst (run_state (store_Add (pr_store p) ctx (pr_stream p) t) s)")
     (auto simp: produce_run_def spy_producer_def new_producer_def Produce_def run_spy split: prod.splits)

text \<open>
  Produce is one Add, then one announcement. Produce adds the task to the producer's stream
  once; when that fails it returns the error and announces nothing; when it succeeds it publishes
  one Pending event for the task and returns the message id, whether or not the event could be
  published.
\<close>

lemma produce_adds_then_announces:
  "case produce_run p ctx t s of
     (Inl err, trace) \<Rightarrow> trace = [CAdd ctx (pr_stream p) t (Inl err)]
   | (Inr msgID, trace) \<Rightarrow> (\<exists>pr. trace = [CAdd ctx (pr_stream p) t (Inr msgID),
        CPublish ctx \<lparr>EType = ''Pending'', TaskID = ID t, WorkerID = []\<rparr> pr])"
  using produce_run_cases [of p ctx t s] by (auto simp: pending_event_def)

text \<open>
  Priorities choose the stream and nothing else: producing with the priority producer is
  producing with a plain producer on the stream of the task's priority, base_high for high,
  base_low for low and the base stream for every other string; these are the three streams it
  reports for the consumer, and they are different streams.
\<close>

lemma priority_produce_routes:
  "pp_Produce pp ctx t = Produce (new_producer (pp_store pp) (pp_publisher pp)
      (if Priority t = ''high'' then pp_baseStream pp @ ''_high''
       else if Priority t = ''low'' then pp_baseStream pp @ ''_low'' else pp_baseStream pp)) ctx t \<and>
   pp_streamForPriority pp (Priority t) \<in> set (pp_Streams pp) \<and> distinct (pp_Streams pp)"
  using producer_router.route_is_read [of pp "Priority t"] producer_router.levels_apart [of pp]
  by (simp add: pp_Produce_eq pp_streamForPriority_def PriorityHigh_def PriorityLow_def)

end
