(* ===== verification/Priority_Consumer.thy ===== *)
theory Priority_Consumer
  imports Worker_Pool Producer
begin

section \<open>The priority consumer\<close>

text \<open>
  \<open>consumer/priority_consumer.go\<close>: the \<open>PriorityConsumer\<close> struct, its handler, its routing of
  priorities to streams (the contract \<open>stream_router\<close> it shares with the priority producer) and
  its goroutines, which keep the contract \<open>worker_pool\<close>. The elapsed time of a task is only
  logged, so the clock is left out with the logging.
\<close>

record 'w priority_consumer =
  pc_store :: "'w stream_store"
  pc_publisher :: "'w event_publisher"
  pc_processor :: "'w task_processor"
  pc_baseStream :: string
  pc_group :: string
  pc_consumer :: string
  pc_workerCount :: int64
  pc_fetchBatchSize :: int64
  pc_blockTimeout :: duration
  pc_maxRetries :: int64

definition new_priority_consumer :: "'w stream_store \<Rightarrow> 'w event_publisher \<Rightarrow> 'w task_processor \<Rightarrow>
    string \<Rightarrow> string \<Rightarrow> string \<Rightarrow> int64 \<Rightarrow> int64 \<Rightarrow> duration \<Rightarrow> int64 \<Rightarrow> 'w priority_consumer" where
  "new_priority_consumer store publisher processor baseStream grp consumer workerCount fetchBatchSize
     blockTimeout maxRetries =
     \<lparr>pc_store = store, pc_publisher = publisher, pc_processor = processor, pc_baseStream = baseStream,
      pc_group = grp, pc_consumer = consumer, pc_workerCount = workerCount,
      pc_fetchBatchSize = fetchBatchSize, pc_blockTimeout = blockTimeout, pc_maxRetries = maxRetries\<rparr>"

subsection \<open>Streams\<close>

definition pc_streamForPriority :: "'w priority_consumer \<Rightarrow> string \<Rightarrow> string" where
  "pc_streamForPriority pc priority =
     (if priority = PriorityHigh then pc_baseStream pc @ ''_high''
      else if priority = PriorityLow then pc_baseStream pc @ ''_low''
      else pc_baseStream pc)"

definition pc_streams :: "'w priority_consumer \<Rightarrow> string list" where
  "pc_streams pc = [pc_baseStream pc @ ''_high'', pc_baseStream pc, pc_baseStream pc @ ''_low'']"

definition pc_dlqStream :: "'w priority_consumer \<Rightarrow> string" where
  "pc_dlqStream pc = pc_baseStream pc @ ''_dlq''"

interpretation consumer_router: stream_router "pc_streamForPriority pc" "pc_streams pc" for pc
  by unfold_locales (auto simp: pc_streamForPriority_def pc_streams_def)

subsection \<open>The handler\<close>

definition pc_process_message :: "'w priority_consumer \<Rightarrow> go_ctx \<Rightarrow> int \<Rightarrow> stream_message \<Rightarrow> ('w, outcome) state" where
  "pc_process_message pc ctx workerID msg =
     (case payload_string msg of
        None \<Rightarrow> do {
          _ \<leftarrow> store_Ack (pc_store pc) Background (pc_baseStream pc) (pc_group pc) (MsgID msg);
          State_Monad.return Finished
        }
      | Some payload \<Rightarrow>
        (case unmarshal payload of
           Inl _ \<Rightarrow> do {
             _ \<leftarrow> store_Ack (pc_store pc) Background (pc_baseStream pc) (pc_group pc) (MsgID msg);
             State_Monad.return Finished
           }
         | Inr t0 \<Rightarrow> do {
             let sourceStream = pc_streamForPriority pc (Priority t0);
             (t, result) \<leftarrow> pc_processor pc ctx t0;
             (case result of
                Panicked \<Rightarrow> State_Monad.return Crashed
              | Returned err \<Rightarrow> do {
                  _ \<leftarrow> (case err of
                     Some e \<Rightarrow>
                       if sless64 (CurrentRetries t) (MaxRetries t) then do {
                         let t1 = t\<lparr>CurrentRetries := CurrentRetries t + 1\<rparr>;
                         _ \<leftarrow> store_Add (pc_store pc) ctx sourceStream t1;
                         State_Monad.return ()
                       } else do {
                         _ \<leftarrow> store_Add (pc_store pc) ctx (pc_dlqStream pc) t;
                         _ \<leftarrow> pc_publisher pc ctx \<lparr>EType = ''DLQ'', TaskID = ID t, WorkerID = []\<rparr>;
                         State_Monad.return ()
                       }
                   | None \<Rightarrow> State_Monad.return ());
                  _ \<leftarrow> store_Ack (pc_store pc) ctx sourceStream (pc_group pc) (MsgID msg);
                  State_Monad.return Finished
                })
           }))"

subsection \<open>What the handler may do, as a specification of traces\<close>

inductive pc_trace :: "'w priority_consumer \<Rightarrow> go_ctx \<Rightarrow> stream_message \<Rightarrow> call list \<Rightarrow> outcome \<Rightarrow> bool"
  for pc ctx msg where
  pc_unreadable: "decoded msg = None \<Longrightarrow>
    pc_trace pc ctx msg [CAck Background (pc_baseStream pc) (pc_group pc) (MsgID msg) r] Finished"
| pc_panics: "decoded msg = Some t \<Longrightarrow> pc_trace pc ctx msg [CProcess ctx t (t', Panicked)] Crashed"
| pc_completes: "decoded msg = Some t \<Longrightarrow>
    pc_trace pc ctx msg [CProcess ctx t (t', Returned None),
      CAck ctx (pc_streamForPriority pc (Priority t)) (pc_group pc) (MsgID msg) r] Finished"
| pc_requeues: "decoded msg = Some t \<Longrightarrow> sless64 (CurrentRetries t') (MaxRetries t') \<Longrightarrow>
    pc_trace pc ctx msg [CProcess ctx t (t', Returned (Some e)),
      CAdd ctx (pc_streamForPriority pc (Priority t)) (t'\<lparr>CurrentRetries := CurrentRetries t' + 1\<rparr>) r1,
      CAck ctx (pc_streamForPriority pc (Priority t)) (pc_group pc) (MsgID msg) r] Finished"
| pc_dead_letters: "decoded msg = Some t \<Longrightarrow> \<not> sless64 (CurrentRetries t') (MaxRetries t') \<Longrightarrow>
    pc_trace pc ctx msg [CProcess ctx t (t', Returned (Some e)),
      CAdd ctx (pc_dlqStream pc) t' r1,
      CPublish ctx \<lparr>EType = ''DLQ'', TaskID = ID t', WorkerID = []\<rparr> r2,
      CAck ctx (pc_streamForPriority pc (Priority t)) (pc_group pc) (MsgID msg) r] Finished"

definition spy_priority_consumer :: "'w priority_consumer \<Rightarrow> 'w spied priority_consumer" where
  "spy_priority_consumer pc = new_priority_consumer (spy_store (pc_store pc)) (spy_publisher (pc_publisher pc))
     (spy_processor (pc_processor pc)) (pc_baseStream pc) (pc_group pc) (pc_consumer pc) (pc_workerCount pc)
     (pc_fetchBatchSize pc) (pc_blockTimeout pc) (pc_maxRetries pc)"

lemma spy_priority_consumer_simps [simp]:
  "pc_store (spy_priority_consumer pc) = spy_store (pc_store pc)"
  "pc_publisher (spy_priority_consumer pc) = spy_publisher (pc_publisher pc)"
  "pc_processor (spy_priority_consumer pc) = spy_processor (pc_processor pc)"
  "pc_baseStream (spy_priority_consumer pc) = pc_baseStream pc"
  "pc_group (spy_priority_consumer pc) = pc_group pc"
  "pc_streamForPriority (spy_priority_consumer pc) = pc_streamForPriority pc"
  "pc_dlqStream (spy_priority_consumer pc) = pc_dlqStream pc"
  by (simp_all add: spy_priority_consumer_def new_priority_consumer_def pc_streamForPriority_def pc_dlqStream_def fun_eq_iff)

lemma decodedI: "payload_string msg = Some p \<Longrightarrow> unmarshal p = Inr t \<Longrightarrow> decoded msg = Some t"
  by (simp add: decoded_def)

lemma yields_pc_process_message [yields_intros]:
  assumes "\<And>tr oc. pc_trace pc ctx msg tr oc \<Longrightarrow> Q oc tr"
  shows "yields (pc_process_message (spy_priority_consumer pc) ctx w msg) Q"
proof -
  have unreadable: "Q Finished [CAck Background (pc_baseStream pc) (pc_group pc) (MsgID msg) r]"
    if "decoded msg = None" for r
    using assms [OF pc_unreadable [OF that]] .
  show ?thesis
    unfolding pc_process_message_def Let_def
    by (auto intro!: yields_intros unreadable split: option.splits sum.splits proc_result.splits simp: decoded_def)
       (rule assms, auto intro: pc_trace.intros decodedI)+
qed

lemma mirrors_pc_process_message [mirrors_intros]:
  "mirrors (pc_process_message pc ctx w msg) (pc_process_message (spy_priority_consumer pc) ctx w msg)"
  unfolding pc_process_message_def Let_def
  by (auto intro!: mirrors_intros split: option.splits sum.splits proc_result.splits)

definition pc_calls :: "'w priority_consumer \<Rightarrow> go_ctx \<Rightarrow> int \<Rightarrow> stream_message \<Rightarrow> 'w \<Rightarrow> call list" where
  "pc_calls pc ctx w msg s =
     calls (snd (run_state (pc_process_message (spy_priority_consumer pc) ctx w msg) \<lparr>calls = [], world = s\<rparr>))"

definition pc_outcome :: "'w priority_consumer \<Rightarrow> go_ctx \<Rightarrow> int \<Rightarrow> stream_message \<Rightarrow> 'w \<Rightarrow> outcome" where
  "pc_outcome pc ctx w msg s = fst (run_state (pc_process_message pc ctx w msg) s)"

lemma pc_handler_trace: "pc_trace pc ctx msg (pc_calls pc ctx w msg s) (pc_outcome pc ctx w msg s)"
proof -
  let ?s = "\<lparr>calls = [], world = s\<rparr>"
  obtain oc s' where run: "run_state (pc_process_message (spy_priority_consumer pc) ctx w msg) ?s = (oc, s')"
    by fastforce
  then have "pc_outcome pc ctx w msg s = oc"
    using mirrors_pc_process_message [unfolded mirrors_def, rule_format, of pc ctx w msg ?s] by (simp add: pc_outcome_def)
  moreover have "pc_trace pc ctx msg (calls s') oc"
    using yieldsD [OF yields_pc_process_message run, of "\<lambda>oc tr. pc_trace pc ctx msg tr oc"] by fastforce
  ultimately show ?thesis using run by (simp add: pc_calls_def)
qed

end
