(* ===== verification/Priority_Pool.thy ===== *)
theory Priority_Pool
  imports Priority_Consumer
begin

section \<open>The priority consumer's goroutines\<close>

text \<open>
  \<open>consumer/priority_consumer.go\<close>: \<open>Start\<close>, the fetcher, which goes round the streams from high
  to low, and the body of a worker's loop. \<open>PScan rest found\<close> is the fetcher in a round, about to
  read the first of \<open>rest\<close>; \<open>PSend ms rest found\<close> has \<open>ms\<close> left to send before it goes on with
  \<open>rest\<close>; \<open>found\<close> is the code's \<open>foundAny\<close>.
\<close>

datatype pfetcher = PLoop | PScan "string list" bool | PSend "stream_message list" "string list" bool
  | PSleep | PReturned

type_synonym 'w priority_pool = "(pfetcher, 'w) pool"

definition pc_chan_cap :: "'w priority_consumer \<Rightarrow> int" where
  "pc_chan_cap pc = sint (pc_workerCount pc * 10)"

fun create_groups :: "'w priority_consumer \<Rightarrow> string list \<Rightarrow> ('w, error option) state" where
  "create_groups pc [] = State_Monad.return None"
| "create_groups pc (s # ss) = do {
     r \<leftarrow> store_CreateGroup (pc_store pc) MainCtx s (pc_group pc);
     (case r of
        Some err \<Rightarrow> State_Monad.return (Some (''failed to create consumer group for '' @ s @ '': '' @ err))
      | None \<Rightarrow> create_groups pc ss)
   }"

definition pc_Start :: "'w priority_consumer \<Rightarrow> 'w \<Rightarrow> (pfetcher, 'w) start" where
  "pc_Start pc w =
     (case run_state (create_groups pc (pc_streams pc)) w of
        (Some err, w') \<Rightarrow> StartFailed err
      | (None, w') \<Rightarrow>
          (if \<not> chan_allowed (pc_chan_cap pc) then StartPanicked
           else Started (started_pool PLoop (pc_workerCount pc) w')))"

text \<open>The deferred function of a worker only logs a panic.\<close>

definition pc_worker_body :: "'w priority_consumer \<Rightarrow> 'w body" where
  "pc_worker_body pc workerID msg = pc_process_message pc Background workerID msg"

definition pc_fetch :: "'w priority_consumer \<Rightarrow> string \<Rightarrow> 'w \<Rightarrow> (error + stream_message list) \<times> 'w" where
  "pc_fetch pc stream = run_state (store_ReadGroup (pc_store pc) MainCtx stream (pc_group pc) (pc_consumer pc)
     (pc_fetchBatchSize pc) (GoDuration (pc_blockTimeout pc)))"

definition pfetcher_returns :: "'w priority_pool \<Rightarrow> 'w priority_pool" where
  "pfetcher_returns s = s\<lparr>po_fetcher := PReturned, po_closed := True\<rparr>"

inductive pc_fetch_step :: "'w priority_consumer \<Rightarrow> 'w priority_pool \<Rightarrow> 'w priority_pool \<Rightarrow> bool" for pc where
  pf_stops: "po_fetcher s = PLoop \<Longrightarrow> po_cancelled s \<Longrightarrow> pc_fetch_step pc s (pfetcher_returns s)"
| pf_round: "po_fetcher s = PLoop \<Longrightarrow> \<not> po_cancelled s \<Longrightarrow>
    pc_fetch_step pc s (s\<lparr>po_fetcher := PScan (pc_streams pc) False\<rparr>)"
| pf_got: "po_fetcher s = PScan (st # rest) found \<Longrightarrow> pc_fetch pc st (po_world s) = (Inr ms, w') \<Longrightarrow>
    pc_fetch_step pc s (s\<lparr>po_fetcher := PSend ms rest (found \<or> ms \<noteq> []), po_world := w', po_fetched := po_fetched s @ ms\<rparr>)"
| pf_failed_cancelled: "po_fetcher s = PScan (st # rest) found \<Longrightarrow> pc_fetch pc st (po_world s) = (Inl err, w') \<Longrightarrow>
    po_cancelled s \<Longrightarrow> pc_fetch_step pc s (pfetcher_returns (s\<lparr>po_world := w'\<rparr>))"
| pf_failed: "po_fetcher s = PScan (st # rest) found \<Longrightarrow> pc_fetch pc st (po_world s) = (Inl err, w') \<Longrightarrow>
    \<not> po_cancelled s \<Longrightarrow> pc_fetch_step pc s (s\<lparr>po_fetcher := PScan rest found, po_world := w'\<rparr>)"
| pf_sends: "po_fetcher s = PSend (m # ms) rest found \<Longrightarrow> int (length (po_chan s)) < pc_chan_cap pc \<Longrightarrow>
    pc_fetch_step pc s (s\<lparr>po_fetcher := PSend ms rest found, po_chan := po_chan s @ [m]\<rparr>)"
| pf_abandons: "po_fetcher s = PSend (m # ms) rest found \<Longrightarrow> po_cancelled s \<Longrightarrow>
    pc_fetch_step pc s (pfetcher_returns (s\<lparr>po_dropped := po_dropped s @ m # ms\<rparr>))"
| pf_sent: "po_fetcher s = PSend [] rest found \<Longrightarrow> pc_fetch_step pc s (s\<lparr>po_fetcher := PScan rest found\<rparr>)"
| pf_round_over: "po_fetcher s = PScan [] found \<Longrightarrow>
    pc_fetch_step pc s (s\<lparr>po_fetcher := (if found then PLoop else PSleep)\<rparr>)"
| pf_wakes: "po_fetcher s = PSleep \<Longrightarrow> pc_fetch_step pc s (s\<lparr>po_fetcher := PLoop\<rparr>)"

inductive_cases pc_fetch_stepE: "pc_fetch_step pc s t"

definition pc_pool_init :: "'w priority_consumer \<Rightarrow> 'w priority_pool \<Rightarrow> bool" where
  "pc_pool_init pc s \<longleftrightarrow> (\<exists>w. pc_Start pc w = Started s)"

abbreviation priority_step :: "'w priority_consumer \<Rightarrow> 'w priority_pool \<Rightarrow> 'w priority_pool \<Rightarrow> bool" where
  "priority_step pc \<equiv> any_step (pc_fetch_step pc) (pc_worker_body pc)"

subsection \<open>The fetcher meets its contract\<close>

fun pin_hand :: "pfetcher \<Rightarrow> stream_message list" where
  "pin_hand (PSend ms rest found) = ms"
| "pin_hand _ = []"

fun pfetcher_rank :: "pfetcher \<Rightarrow> nat" where
  "pfetcher_rank (PSend ms rest found) = 2 * length rest + 4"
| "pfetcher_rank (PScan rest found) = 2 * length rest + 3"
| "pfetcher_rank PSleep = 2"
| "pfetcher_rank PLoop = 1"
| "pfetcher_rank PReturned = 0"

lemma pc_Start_started:
  "pc_Start pc w = Started s \<longleftrightarrow> (\<exists>w'. run_state (create_groups pc (pc_streams pc)) w = (None, w') \<and>
     chan_allowed (pc_chan_cap pc) \<and> s = started_pool PLoop (pc_workerCount pc) w')"
  by (auto simp: pc_Start_def split: prod.split option.split)

lemma pfetcher_progress:
  assumes "po_cancelled s" and "po_fetcher s \<noteq> PReturned"
  shows "\<exists>t. pc_fetch_step pc s t"
proof (cases "po_fetcher s")
  case (PScan rest found)
  show ?thesis
  proof (cases rest)
    case (Cons st rest')
    obtain r w' where "pc_fetch pc st (po_world s) = (r, w')" by fastforce
    with PScan Cons assms show ?thesis by (cases r) (blast intro: pc_fetch_step.intros)+
  qed (use PScan in \<open>blast intro: pc_fetch_step.intros\<close>)
next
  case (PSend ms rest found)
  with assms show ?thesis by (cases ms) (blast intro: pc_fetch_step.intros)+
qed (use assms in \<open>blast intro: pc_fetch_step.intros\<close>)+

lemmas pfx_moves = fx_moves [of "\<lambda>f. f = PReturned" _ _ pin_hand]
lemmas pfx_returns = fx_returns [of "\<lambda>f. f = PReturned" _ PReturned pin_hand]

lemma pc_fetch_step_effect:
  assumes "pc_fetch_step pc s t"
  shows "fetch_effect pin_hand (\<lambda>f. f = PReturned) (pc_chan_cap pc) s t"
  using assms
proof cases
  case pf_stops
  then show ?thesis using pfx_returns [of s "pc_chan_cap pc" "po_world s"] by (cases s) (simp add: pfetcher_returns_def)
next
  case pf_round
  then show ?thesis using pfx_moves [of s "PScan (pc_streams pc) False" "pc_chan_cap pc" "po_world s"] by simp
next
  case (pf_got st rest found ms w')
  then show ?thesis using fx_gets [of "\<lambda>f. f = PReturned" s "PSend ms rest (found \<or> ms \<noteq> [])" pin_hand ms "pc_chan_cap pc" w'] by simp
next
  case (pf_failed_cancelled st rest found err w')
  then show ?thesis using pfx_returns [of s "pc_chan_cap pc" w'] by (cases s) (simp add: pfetcher_returns_def)
next
  case (pf_failed st rest found err w')
  then show ?thesis using pfx_moves [of s "PScan rest found" "pc_chan_cap pc" w'] by simp
next
  case (pf_sends m ms rest found)
  then show ?thesis using fx_sends [of "\<lambda>f. f = PReturned" s "PSend ms rest found" pin_hand m "pc_chan_cap pc"] by simp
next
  case (pf_abandons m ms rest found)
  then show ?thesis using pfx_returns [of s "pc_chan_cap pc" "po_world s"] by (cases s) (simp add: pfetcher_returns_def)
next
  case (pf_sent rest found)
  then show ?thesis using pfx_moves [of s "PScan rest found" "pc_chan_cap pc" "po_world s"] by simp
next
  case (pf_round_over found)
  then show ?thesis using pfx_moves [of s "if found then PLoop else PSleep" "pc_chan_cap pc" "po_world s"] by simp
next
  case pf_wakes
  then show ?thesis using pfx_moves [of s PLoop "pc_chan_cap pc" "po_world s"] by simp
qed

interpretation ppool: worker_pool "pc_pool_init pc" "pc_fetch_step pc" "pc_worker_body pc" pin_hand "\<lambda>f. f = PReturned"
    "pc_chan_cap pc" "pc_workerCount pc" pfetcher_rank
  for pc
proof
  show "pc_pool_init pc s \<Longrightarrow> 0 \<le> pc_chan_cap pc \<and>
      (\<exists>f w. f \<noteq> PReturned \<and> pin_hand f = [] \<and> s = started_pool f (pc_workerCount pc) w)" for s
    by (auto simp: pc_pool_init_def pc_Start_started chan_allowed_def intro: exI [of _ PLoop])
  show "pc_fetch_step pc s t \<Longrightarrow> fetch_effect pin_hand (\<lambda>f. f = PReturned) (pc_chan_cap pc) s t" for s t
    by (rule pc_fetch_step_effect)
  show "po_cancelled s \<Longrightarrow> po_fetcher s \<noteq> PReturned \<Longrightarrow> \<exists>t. pc_fetch_step pc s t" for s
    by (rule pfetcher_progress)
  show "pc_fetch_step pc s t \<Longrightarrow> po_cancelled s \<Longrightarrow> pfetcher_rank (po_fetcher t) < pfetcher_rank (po_fetcher s) \<or>
      pfetcher_rank (po_fetcher t) = pfetcher_rank (po_fetcher s) \<and>
      3 * length (pin_hand (po_fetcher t)) + 2 * length (po_chan t) < 3 * length (pin_hand (po_fetcher s)) + 2 * length (po_chan s)" for s t
    by (erule pc_fetch_stepE) (auto simp: pfetcher_returns_def)
qed

end
