(* ===== verification/Priority_Correct.thy ===== *)
theory Priority_Correct
  imports Priority_Pool
begin

section \<open>What the priority consumer guarantees\<close>

text \<open>
  The properties of \<open>PriorityConsumer\<close>: its handler for arbitrary collaborators, its agreement
  with the priority producer about the streams, one round of its fetcher, and, from the shared
  contract, its pool.
\<close>

lemmas pc_handler_defs = pc_calls_def pc_process_message_def spy_priority_consumer_def new_priority_consumer_def
  pc_streamForPriority_def pc_dlqStream_def pc_streams_def pc_chan_cap_def run_spy run_unspied Let_def

definition priority_demo :: "error option \<Rightarrow> error option \<Rightarrow> unit priority_consumer" where
  "priority_demo addErr e = new_priority_consumer (mock_store None addErr None) (mock_publisher None) (mock_processor e)
     ''test'' ''test-group'' ''test-consumer'' 1 10 (word_of_int second) 3"

lemma priority_calls_lost:
  "pc_calls (priority_demo (Some ''down'') (Some ''boom'')) Background 1 retry_msg () =
     [CProcess Background (zero_task\<lparr>MaxRetries := 1\<rparr>) (zero_task\<lparr>MaxRetries := 1\<rparr>, Returned (Some ''boom'')),
      CAdd Background ''test'' (zero_task\<lparr>MaxRetries := 1, CurrentRetries := 1\<rparr>) (Inl ''down''),
      CAck Background ''test'' ''test-group'' ''2-0'' None]"
  by (simp add: pc_handler_defs mock_defs priority_demo_def retry_msg_def unmarshal_retry sless64_def
      PriorityHigh_def PriorityLow_def)

subsection \<open>The handler\<close>

text \<open>
  Only a panic keeps a message unacknowledged. Whatever the collaborators answer, a run of the
  handler ends with exactly one acknowledgement of the message, its last call, unless the processor
  panicked, and then there is none.
\<close>

lemma priority_acks_unless_panic:
  "case pc_outcome pc ctx w msg s of
     Crashed \<Rightarrow> filter is_ack (pc_calls pc ctx w msg s) = []
   | Finished \<Rightarrow> \<exists>cs actx st r. pc_calls pc ctx w msg s = cs @ [CAck actx st (pc_group pc) (MsgID msg) r] \<and>
        filter is_ack cs = []"
  using pc_handler_trace [of pc ctx msg w s]
  by (cases rule: pc_trace.cases) (force simp: append_eq_Cons_conv Cons_eq_append_conv)+

text \<open>
  C34: A failed write-back loses the task. When the processor fails and the Add that should re-queue
  or dead-letter the task is answered with an error, that was the only Add, and the original is
  acknowledged all the same.
\<close>

theorem priority_failed_add_is_acked:
  assumes "CAdd actx st t (Inl err) \<in> set (pc_calls pc ctx w msg s)"
  shows "filter is_add (pc_calls pc ctx w msg s) = [CAdd actx st t (Inl err)] \<and>
    (\<exists>src r. CAck ctx src (pc_group pc) (MsgID msg) r \<in> set (pc_calls pc ctx w msg s))"
  using pc_handler_trace [of pc ctx msg w s] assms
  by (cases rule: pc_trace.cases) auto

theorem priority_failed_add_is_acked_witness:
  "let cs = pc_calls (priority_demo (Some ''down'') (Some ''boom'')) Background 1 retry_msg () in
   CAdd Background ''test'' (zero_task\<lparr>MaxRetries := 1, CurrentRetries := 1\<rparr>) (Inl ''down'') \<in> set cs \<and>
   (\<exists>src r. CAck Background src ''test-group'' ''2-0'' r \<in> set cs)"
  using priority_failed_add_is_acked [of Background "''test''" "zero_task\<lparr>MaxRetries := 1, CurrentRetries := 1\<rparr>" "''down''"
      "priority_demo (Some ''down'') (Some ''boom'')" Background 1 retry_msg "()"]
  by (simp add: priority_calls_lost)

text \<open>
  C33: What the priority consumer writes back. After a processing error exactly one task is added:
  while the retry budget of the task lasts, to the stream of the priority it came with, with one
  retry more (the counter does not wrap); after that, unchanged, to the dead-letter stream, followed
  by a DLQ event. In neither case is the error recorded in the task. Without an error nothing is
  added.
\<close>

theorem priority_failure_write_back:
  assumes "CProcess ctx t (t', Returned err) \<in> set (pc_calls pc ctx w msg s)"
  shows "case err of
     None \<Rightarrow> filter is_add (pc_calls pc ctx w msg s) = [] \<and> events_of (pc_calls pc ctx w msg s) = []
   | Some e \<Rightarrow>
      (if sint (CurrentRetries t') < sint (MaxRetries t') then
         (\<exists>u r. filter is_add (pc_calls pc ctx w msg s) = [CAdd ctx (pc_streamForPriority pc (Priority t)) u r] \<and>
            u = t'\<lparr>CurrentRetries := CurrentRetries t' + 1\<rparr> \<and> sint (CurrentRetries u) = sint (CurrentRetries t') + 1 \<and>
            Error u = Error t') \<and> events_of (pc_calls pc ctx w msg s) = []
       else
         (\<exists>r. filter is_add (pc_calls pc ctx w msg s) = [CAdd ctx (pc_baseStream pc @ ''_dlq'') t' r]) \<and>
         events_of (pc_calls pc ctx w msg s) = [\<lparr>EType = ''DLQ'', TaskID = ID t', WorkerID = []\<rparr>])"
  using pc_handler_trace [of pc ctx msg w s] assms
  by (cases rule: pc_trace.cases) (auto simp: sless64_def pc_dlqStream_def sint64_incr [unfolded sless64_def])

theorem priority_failure_write_back_witness:
  "let cs = pc_calls (priority_demo (Some ''down'') (Some ''boom'')) Background 1 retry_msg () in
   CProcess Background (zero_task\<lparr>MaxRetries := 1\<rparr>) (zero_task\<lparr>MaxRetries := 1\<rparr>, Returned (Some ''boom'')) \<in> set cs \<and>
   events_of cs = [] \<and> (\<exists>u r. filter is_add cs = [CAdd Background ''test'' u r] \<and> sint (CurrentRetries u) = 1 \<and> Error u = [])"
  using priority_failure_write_back [of Background "zero_task\<lparr>MaxRetries := 1\<rparr>" "zero_task\<lparr>MaxRetries := 1\<rparr>" "Some ''boom''"
      "priority_demo (Some ''down'') (Some ''boom'')" 1 retry_msg "()"]
  by (simp add: priority_calls_lost)

lemma router_agrees:
  "pp_baseStream pp = pc_baseStream pc \<Longrightarrow> pc_streamForPriority pc = pp_streamForPriority pp \<and> pc_streams pc = pp_Streams pp"
  by (auto simp: pc_streamForPriority_def pp_streamForPriority_def pc_streams_def pp_Streams_def fun_eq_iff)

text \<open>
  C35: Producer and consumer agree on the streams. Over the same base stream, the priority consumer
  reads exactly the streams the priority producer reports; and a message with the encoding of a task
  is acknowledged, and re-queued after a failure, on the stream the producer adds that task to.
\<close>

theorem producer_and_consumer_agree:
  assumes "json_task t" and "pp_baseStream pp = pc_baseStream pc"
  shows "pc_streams pc = pp_Streams pp \<and> pp_streamForPriority pp (Priority t) \<in> set (pc_streams pc) \<and>
    list_all (\<lambda>call. case call of
        CAck actx st grp m r \<Rightarrow> st = pp_streamForPriority pp (Priority t)
      | CAdd actx st u r \<Rightarrow> st = pp_streamForPriority pp (Priority t) \<or> st = pc_baseStream pc @ ''_dlq''
      | _ \<Rightarrow> True) (pc_calls pc ctx w (make_stream_msg m t) s)"
proof -
  have "decoded (make_stream_msg m t) = Some (normal_task t)" using assms(1) by (rule decoded_make_stream_msg)
  moreover have "Priority (normal_task t) = Priority t" by (simp add: normal_task_def)
  ultimately show ?thesis
    using router_agrees [OF assms(2)] consumer_router.route_is_read [of pc "Priority t"]
    by (cases rule: pc_trace.cases [OF pc_handler_trace [of pc ctx "make_stream_msg m t" w s]])
       (auto simp: pc_dlqStream_def)
qed

theorem producer_and_consumer_agree_witness:
  "json_task sample_task \<and>
   pc_streams (priority_demo None None) = pp_Streams (new_priority_producer (mock_store None None None) (mock_publisher None) ''test'')"
  using producer_and_consumer_agree [OF json_sample_task(1),
      of "new_priority_producer (mock_store None None None) (mock_publisher None) ''test''" "priority_demo None None"]
    json_sample_task(1)
  by (simp add: new_priority_producer_def priority_demo_def new_priority_consumer_def)

subsection \<open>A round of the fetcher\<close>




definition priority_start :: "unit priority_pool" where
  "priority_start = started_pool PLoop 1 ()"



subsection \<open>The pool\<close>

lemma priority_start_init: "pc_pool_init (priority_demo None None) priority_start"
  by (simp add: pc_pool_init_def pc_Start_started chan_allowed_def pc_handler_defs priority_demo_def mock_defs priority_start_def)

text \<open>
  C36: The priority pool loses nothing and stops. In every reachable state the messages read are,
  in this order, those workers took, those in the channel, those the fetcher holds and those it
  abandoned; the channel stays within its capacity and is closed only after the context was
  cancelled; and once it is cancelled, the pool's own steps can end with all goroutines returned,
  there are only finitely many of them, and no fair run goes on without that end.
\<close>

theorem priority_pool_safe:
  assumes "reachable (pc_pool_init pc) (priority_step pc) s"
  shows "po_fetched s = po_taken s @ po_chan s @ pin_hand (po_fetcher s) @ po_dropped s \<and>
    int (length (po_chan s)) \<le> sint (pc_workerCount pc * 10) \<and>
    (if po_cancelled s then
       (\<exists>t. (own_step (pc_fetch_step pc) (pc_worker_body pc))\<^sup>*\<^sup>* s t \<and> all_returned (\<lambda>f. f = PReturned) t) \<and>
       \<not> (\<exists>f. f 0 = s \<and> (\<forall>i. own_step (pc_fetch_step pc) (pc_worker_body pc) (f i) (f (Suc i)))) \<and>
       \<not> (\<exists>f. f 0 = s \<and> endless_run (priority_step pc) f \<and> fair_run (own_step (pc_fetch_step pc) (pc_worker_body pc)) f \<and>
           (\<forall>i. \<not> all_returned (\<lambda>f. f = PReturned) (f i)))
     else \<not> po_closed s)"
proof -
  have inv: "pool_inv pin_hand (\<lambda>f. f = PReturned) (pc_chan_cap pc) (nat (sint (pc_workerCount pc))) s"
    by (rule ppool.reachable_inv) (rule assms)
  then show ?thesis using ppool.ends [OF inv] by (auto simp: pool_inv_def pc_chan_cap_def)
qed

theorem priority_pool_safe_witness:
  "(\<exists>t. (own_step (pc_fetch_step (priority_demo None None)) (pc_worker_body (priority_demo None None)))\<^sup>*\<^sup>*
      (priority_start\<lparr>po_cancelled := True\<rparr>) t \<and> all_returned (\<lambda>f. f = PReturned) t)"
proof -
  let ?pc = "priority_demo None None"
  have "reachable (pc_pool_init ?pc) (priority_step ?pc) (priority_start\<lparr>po_cancelled := True\<rparr>)"
    using successor [of "pc_pool_init ?pc" "priority_step ?pc" priority_start "priority_start\<lparr>po_cancelled := True\<rparr>"]
      initial [of "pc_pool_init ?pc" priority_start] priority_start_init env_any [OF env_cancels [of priority_start]] by blast
  from priority_pool_safe [OF this] show ?thesis by simp
qed

end
