(* ===== verification/Go_Parse.thy ===== *)
theory Go_Parse
  imports Go_Json
begin

section \<open>strconv.Atoi, strconv.ParseBool, time.ParseDuration, strings.TrimSpace\<close>

text \<open>The parsers of the standard library the configuration is read with. \<open>None\<close> is an error.\<close>

subsection \<open>Integers and truth values\<close>

definition atoi :: "string \<Rightarrow> int64 option" where
  "atoi s =
     (let signed = (s \<noteq> [] \<and> (hd s = CHR ''-'' \<or> hd s = CHR ''+''));
          ds = (if signed then tl s else s);
          v = (if signed \<and> hd s = CHR ''-'' then - int (read_nat ds) else int (read_nat ds)) in
      if ds \<noteq> [] \<and> list_all is_digit ds \<and> - (2 ^ 63) \<le> v \<and> v < 2 ^ 63
      then Some (word_of_int v) else None)"

definition parse_bool :: "string \<Rightarrow> bool option" where
  "parse_bool s =
     (if s \<in> {''1'', ''t'', ''T'', ''true'', ''TRUE'', ''True''} then Some True
      else if s \<in> {''0'', ''f'', ''F'', ''false'', ''FALSE'', ''False''} then Some False
      else None)"

subsection \<open>Durations\<close>

fun bit_length :: "nat \<Rightarrow> nat" where
  "bit_length n = (if n = 0 then 0 else 1 + bit_length (n div 2))"

declare bit_length.simps [simp del]

text \<open>
  The fraction of a duration is computed in \<open>float64\<close>. A positive value is a ratio of naturals;
  \<open>float_round\<close> rounds it to 53 bits, half to even. (The values here are above 2 to the -64, so
  128 more bits leave room for the mantissa.)
\<close>

definition float_round :: "nat \<times> nat \<Rightarrow> nat \<times> nat" where
  "float_round q = (case q of (a, b) \<Rightarrow>
     (if a = 0 then (0, 1)
      else (let a' = a * 2 ^ 128;
                w = 2 ^ (bit_length (a' div b) - 53);
                m = a' div (b * w);
                r = a' mod (b * w);
                m' = (if 2 * r > b * w \<or> 2 * r = b * w \<and> odd m then m + 1 else m) in
            (m' * w, 2 ^ 128))))"

text \<open>\<open>uint64(float64(f) * (float64(unit) / scale))\<close>\<close>

definition fraction_of_unit :: "nat \<Rightarrow> nat \<Rightarrow> nat \<Rightarrow> nat" where
  "fraction_of_unit f unit scale =
     (case (float_round (f, 1), float_round (unit, scale)) of
        ((a, b), (c, d)) \<Rightarrow> (case float_round (a * c, b * d) of (x, y) \<Rightarrow> x div y))"

text \<open>\<open>leadingInt\<close>: \<open>None\<close> is the overflow. \<open>leadingFraction\<close> stops counting digits at an overflow.\<close>

fun leading_int :: "nat \<Rightarrow> string \<Rightarrow> (nat \<times> string) option" where
  "leading_int x [] = Some (x, [])"
| "leading_int x (c # s) =
     (if \<not> is_digit c then Some (x, c # s)
      else if x > 2 ^ 63 div 10 then None
      else (let y = x * 10 + digit_val c in if y > 2 ^ 63 then None else leading_int y s))"

fun leading_fraction :: "nat \<Rightarrow> nat \<Rightarrow> bool \<Rightarrow> string \<Rightarrow> nat \<times> nat \<times> string" where
  "leading_fraction x scale over [] = (x, scale, [])"
| "leading_fraction x scale over (c # s) =
     (if \<not> is_digit c then (x, scale, c # s)
      else if over then leading_fraction x scale over s
      else if x > (2 ^ 63 - 1) div 10 then leading_fraction x scale True s
      else (let y = x * 10 + digit_val c in
        if y > 2 ^ 63 then leading_fraction x scale True s else leading_fraction y (scale * 10) False s))"

definition unit_map :: "string \<Rightarrow> nat option" where
  "unit_map = map_of [(''ns'', 1), (''us'', 1000), (encode_rune 0xB5 @ ''s'', 1000), (encode_rune 0x3BC @ ''s'', 1000),
     (''ms'', 1000000), (''s'', 1000000000), (''m'', 60000000000), (''h'', 3600000000000)]"

definition number_char :: "char \<Rightarrow> bool" where
  "number_char c \<longleftrightarrow> c = CHR ''.'' \<or> is_digit c"

text \<open>One number with its unit: its value and the rest of the string.\<close>

definition parse_term :: "string \<Rightarrow> (nat \<times> string) option" where
  "parse_term s =
     (if s = [] \<or> \<not> number_char (hd s) then None
      else (case leading_int 0 s of
        None \<Rightarrow> None
      | Some (v, s1) \<Rightarrow>
          (let pre = (length s1 \<noteq> length s);
               dot = (s1 \<noteq> [] \<and> hd s1 = CHR ''.'');
               (f, scale, s2) = (if dot then leading_fraction 0 1 False (tl s1) else (0, 1, s1));
               post = (dot \<and> length s2 \<noteq> length (tl s1));
               u = takeWhile (\<lambda>c. \<not> number_char c) s2;
               s3 = dropWhile (\<lambda>c. \<not> number_char c) s2 in
           if \<not> pre \<and> \<not> post then None
           else if u = [] then None
           else (case unit_map u of
             None \<Rightarrow> None
           | Some unit \<Rightarrow>
               (if v > 2 ^ 63 div unit then None
                else (let v' = v * unit + (if f > 0 then fraction_of_unit f unit scale else 0) in
                  if v' > 2 ^ 63 then None else Some (v', s3)))))))"

lemma leading_int_length: "leading_int x s = Some (v, r) \<Longrightarrow> length r \<le> length s"
  by (induction x s rule: leading_int.induct) (auto simp: Let_def split: if_splits)

lemma leading_fraction_length: "leading_fraction x sc ov s = (f, scale, r) \<Longrightarrow> length r \<le> length s"
  by (induction x sc ov s rule: leading_fraction.induct) (auto simp: Let_def split: if_splits)

lemma leading_fraction_rest: "length (snd (snd (leading_fraction x sc ov s))) \<le> length s"
  using leading_fraction_length [of x sc ov s] by (cases "leading_fraction x sc ov s") auto

lemma parse_term_shorter:
  assumes "parse_term s = Some (v, r)"
  shows "length r < length s"
proof -
  obtain v1 s1 where 1: "leading_int 0 s = Some (v1, s1)"
    using assms by (auto simp: parse_term_def split: if_splits option.splits)
  define s2 where "s2 = (if s1 \<noteq> [] \<and> hd s1 = CHR ''.'' then snd (snd (leading_fraction 0 1 False (tl s1))) else s1)"
  have "length s2 \<le> length s1"
    using leading_fraction_rest [of 0 1 False "tl s1"] by (auto simp: s2_def)
  moreover have "takeWhile (\<lambda>c. \<not> number_char c) s2 \<noteq> []" "r = dropWhile (\<lambda>c. \<not> number_char c) s2"
    using assms 1 by (auto simp: parse_term_def s2_def Let_def split: if_splits option.splits prod.splits)
  then have "length r < length s2"
    by (metis takeWhile_dropWhile_id length_append length_greater_0_conv less_add_same_cancel2)
  ultimately show ?thesis using leading_int_length [OF 1] by simp
qed

function parse_terms :: "nat \<Rightarrow> string \<Rightarrow> nat option" where
  "parse_terms d s =
     (if s = [] then Some d
      else (case parse_term s of
        None \<Rightarrow> None
      | Some (v, r) \<Rightarrow> if d + v > 2 ^ 63 then None else parse_terms (d + v) r))"
  by pat_completeness auto
termination
  by (relation "measure (\<lambda>(d, s). length s)") (auto dest: parse_term_shorter)

declare parse_terms.simps [simp del]

definition parse_duration :: "string \<Rightarrow> duration option" where
  "parse_duration orig =
     (let signed = (orig \<noteq> [] \<and> (hd orig = CHR ''-'' \<or> hd orig = CHR ''+''));
          neg = (signed \<and> hd orig = CHR ''-'');
          s = (if signed then tl orig else orig) in
      if s = ''0'' then Some 0
      else if s = [] then None
      else (case parse_terms 0 s of
        None \<Rightarrow> None
      | Some d \<Rightarrow>
          (if neg then Some (- word_of_int (int d))
           else if d > 2 ^ 63 - 1 then None else Some (word_of_int (int d)))))"

subsection \<open>White space\<close>

text \<open>
  The runes \<open>unicode.IsSpace\<close> accepts, encoded: six of ASCII, then U+0085, U+00A0, U+1680, U+2000 to
  U+200A, U+2028, U+2029, U+202F, U+205F and U+3000. \<open>strip\<close> removes them from the front; at the end
  they are found by their reversed encodings, as decoding the last rune does.
\<close>

definition space_runes :: "string list" where
  "space_runes =
     [[CHR 0x09], [CHR 0x0A], [CHR 0x0B], [CHR 0x0C], [CHR 0x0D], [CHR 0x20],
      [CHR 0xC2, CHR 0x85], [CHR 0xC2, CHR 0xA0], [CHR 0xE1, CHR 0x9A, CHR 0x80],
      [CHR 0xE2, CHR 0x80, CHR 0x80], [CHR 0xE2, CHR 0x80, CHR 0x81], [CHR 0xE2, CHR 0x80, CHR 0x82],
      [CHR 0xE2, CHR 0x80, CHR 0x83], [CHR 0xE2, CHR 0x80, CHR 0x84], [CHR 0xE2, CHR 0x80, CHR 0x85],
      [CHR 0xE2, CHR 0x80, CHR 0x86], [CHR 0xE2, CHR 0x80, CHR 0x87], [CHR 0xE2, CHR 0x80, CHR 0x88],
      [CHR 0xE2, CHR 0x80, CHR 0x89], [CHR 0xE2, CHR 0x80, CHR 0x8A], [CHR 0xE2, CHR 0x80, CHR 0xA8],
      [CHR 0xE2, CHR 0x80, CHR 0xA9], [CHR 0xE2, CHR 0x80, CHR 0xAF], [CHR 0xE2, CHR 0x81, CHR 0x9F],
      [CHR 0xE3, CHR 0x80, CHR 0x80]]"

function strip :: "string list \<Rightarrow> string \<Rightarrow> string" where
  "strip rs s = (case List.find (\<lambda>r. r \<noteq> [] \<and> has_prefix s r) rs of
     None \<Rightarrow> s
   | Some r \<Rightarrow> strip rs (drop (length r) s))"
  by pat_completeness auto
termination
proof (relation "measure (\<lambda>(rs, s). length s)", simp)
  fix rs s r
  assume "List.find (\<lambda>r. r \<noteq> [] \<and> has_prefix s r) rs = Some r"
  then have "r \<noteq> [] \<and> has_prefix s r" by (auto simp: find_Some_iff)
  then show "((rs, drop (length r) s), rs, s) \<in> measure (\<lambda>(rs, s). length s)"
    by (cases s; cases r) (auto simp: has_prefix_def)
qed

declare strip.simps [simp del]

definition trim_space :: "string \<Rightarrow> string" where
  "trim_space s = rev (strip (map rev space_runes) (rev (strip space_runes s)))"

definition stripped :: "string list \<Rightarrow> string \<Rightarrow> bool" where
  "stripped rs s \<longleftrightarrow> list_all (\<lambda>r. r = [] \<or> \<not> has_prefix s r) rs"

lemma strip_stripped: "stripped rs (strip rs s)"
proof (induction rs s rule: strip.induct)
  case (1 rs s)
  show ?case
  proof (cases "List.find (\<lambda>r. r \<noteq> [] \<and> has_prefix s r) rs")
    case None
    then have "strip rs s = s" by (simp add: strip.simps [of rs s])
    with None show ?thesis by (auto simp: stripped_def list_all_iff find_None_iff)
  next
    case (Some r)
    with 1 show ?thesis by (simp add: strip.simps [of rs s])
  qed
qed

lemma strip_id: "stripped rs s \<Longrightarrow> strip rs s = s"
proof -
  assume "stripped rs s"
  then have "List.find (\<lambda>r. r \<noteq> [] \<and> has_prefix s r) rs = None"
    by (auto simp: stripped_def list_all_iff find_None_iff)
  then show ?thesis by (simp add: strip.simps [of rs s])
qed

lemma strip_suffix: "\<exists>p. s = p @ strip rs s"
proof (induction rs s rule: strip.induct)
  case (1 rs s)
  show ?case
  proof (cases "List.find (\<lambda>r. r \<noteq> [] \<and> has_prefix s r) rs")
    case (Some r)
    with 1 obtain p where "drop (length r) s = p @ strip rs s" by (auto simp: strip.simps [of rs s])
    then have "s = (take (length r) s @ p) @ strip rs s" by (metis append_assoc append_take_drop_id)
    then show ?thesis by blast
  qed (simp add: strip.simps [of rs s])
qed

text \<open>Trimming leaves no white space at either end, and trimming again changes nothing.\<close>

lemma trim_space_clean:
  "stripped space_runes (trim_space s)" "stripped (map rev space_runes) (rev (trim_space s))"
proof -
  let ?t = "strip space_runes s"
  obtain p where "rev ?t = p @ strip (map rev space_runes) (rev ?t)" using strip_suffix by blast
  then have "?t = trim_space s @ rev p" by (metis rev_append rev_rev_ident trim_space_def)
  with strip_stripped [of space_runes s] show "stripped space_runes (trim_space s)"
    by (auto simp: stripped_def list_all_iff has_prefix_iff)
  show "stripped (map rev space_runes) (rev (trim_space s))"
    by (simp add: trim_space_def strip_stripped)
qed

lemma trim_space_idem [simp]: "trim_space (trim_space s) = trim_space s"
proof -
  have "strip space_runes (trim_space s) = trim_space s" by (rule strip_id) (rule trim_space_clean)
  moreover have "strip (map rev space_runes) (rev (trim_space s)) = rev (trim_space s)" by (rule strip_id) (rule trim_space_clean)
  ultimately show ?thesis by (simp add: trim_space_def [of "trim_space s"])
qed

end
