(* ===== verification/Config.thy ===== *)
theory Config
  imports Go_Parse
begin

section \<open>Configuration\<close>

text \<open>
  \<open>config/config.go\<close>: the \<open>Config\<close> struct, \<open>Load\<close> and the functions that read one variable. The
  environment is a function from names to values; a variable that is not set reads as the empty
  string, as with \<open>os.Getenv\<close>.
\<close>

type_synonym environment = "string \<Rightarrow> string"

record config =
  RedisAddr :: string
  RedisCluster :: bool
  RedisAddrs :: "string list"
  StreamName :: string
  GroupName :: string
  ConsumerName :: string
  WorkerCount :: int64
  FetchBatchSize :: int64
  BlockTimeout :: duration
  APIPort :: string
  MetricsPort :: string
  CORSOrigins :: "string list"
  APIKey :: string
  MockTaskInterval :: duration
  CfgMaxRetries :: int64
  EnableMockTasks :: bool
  EnablePriority :: bool
  DLQStreamName :: string

definition envOrDefault :: "environment \<Rightarrow> string \<Rightarrow> string \<Rightarrow> string" where
  "envOrDefault env key fallback = (let v = env key in if v \<noteq> [] then v else fallback)"

definition envIntOrDefault :: "environment \<Rightarrow> string \<Rightarrow> int64 \<Rightarrow> int64" where
  "envIntOrDefault env key fallback =
     (let v = env key in
      if v \<noteq> [] then (case atoi v of Some n \<Rightarrow> n | None \<Rightarrow> fallback) else fallback)"

definition envBoolOrDefault :: "environment \<Rightarrow> string \<Rightarrow> bool \<Rightarrow> bool" where
  "envBoolOrDefault env key fallback =
     (let v = env key in
      if v \<noteq> [] then (case parse_bool v of Some b \<Rightarrow> b | None \<Rightarrow> fallback) else fallback)"

definition envDurationOrDefault :: "environment \<Rightarrow> string \<Rightarrow> duration \<Rightarrow> duration" where
  "envDurationOrDefault env key fallback =
     (let v = env key in
      if v \<noteq> [] then (case parse_duration v of Some d \<Rightarrow> d | None \<Rightarrow> fallback) else fallback)"

fun trimmed_parts :: "string list \<Rightarrow> string list" where
  "trimmed_parts [] = []"
| "trimmed_parts (p # ps) = (let q = trim_space p in if q \<noteq> [] then q # trimmed_parts ps else trimmed_parts ps)"

definition envListOrDefault :: "environment \<Rightarrow> string \<Rightarrow> string list \<Rightarrow> string list" where
  "envListOrDefault env key fallback =
     (let v = env key in
      if v \<noteq> [] then trimmed_parts (split_on (CHR '','') v) else fallback)"

definition Load :: "environment \<Rightarrow> config" where
  "Load env =
     \<lparr>RedisAddr = envOrDefault env ''REDIS_ADDR'' ''localhost:6379'',
      RedisCluster = envBoolOrDefault env ''REDIS_CLUSTER'' False,
      RedisAddrs = envListOrDefault env ''REDIS_ADDRS'' [''localhost:6379''],
      StreamName = envOrDefault env ''STREAM_NAME'' ''buraq_tasks'',
      GroupName = envOrDefault env ''GROUP_NAME'' ''buraq_workers'',
      ConsumerName = envOrDefault env ''CONSUMER_NAME'' ''worker_node_1'',
      WorkerCount = envIntOrDefault env ''WORKER_COUNT'' 5,
      FetchBatchSize = envIntOrDefault env ''FETCH_BATCH_SIZE'' 10,
      BlockTimeout = envDurationOrDefault env ''BLOCK_TIMEOUT'' (word_of_int (2 * second)),
      APIPort = envOrDefault env ''API_PORT'' '':8080'',
      MetricsPort = envOrDefault env ''METRICS_PORT'' '':2112'',
      CORSOrigins = envListOrDefault env ''CORS_ORIGINS'' [''http://localhost:3000''],
      APIKey = envOrDefault env ''API_KEY'' [],
      MockTaskInterval = envDurationOrDefault env ''MOCK_TASK_INTERVAL'' (word_of_int (2 * second)),
      CfgMaxRetries = envIntOrDefault env ''MAX_RETRIES'' 3,
      EnableMockTasks = envBoolOrDefault env ''ENABLE_MOCK_TASKS'' True,
      EnablePriority = envBoolOrDefault env ''ENABLE_PRIORITY'' False,
      DLQStreamName = envOrDefault env ''DLQ_STREAM_NAME'' ''buraq_tasks_dlq''\<rparr>"

subsection \<open>Lists\<close>

lemma trimmed_parts_eq: "trimmed_parts ps = filter (\<lambda>q. q \<noteq> []) (map trim_space ps)"
  by (induction ps) (auto simp: Let_def)

lemma split_on_no_sep: "p \<in> set (split_on c s) \<Longrightarrow> c \<notin> set p"
  by (induction s arbitrary: p) (auto split: list.splits if_splits)

lemma trim_space_subset: "set (trim_space s) \<subseteq> set s"
proof -
  obtain p q where "s = p @ strip space_runes s"
    and "rev (strip space_runes s) = q @ strip (map rev space_runes) (rev (strip space_runes s))"
    using strip_suffix by metis
  then have "set (strip space_runes s) \<subseteq> set s" "set (rev (trim_space s)) \<subseteq> set (rev (strip space_runes s))"
    by (metis Un_upper2 set_append, metis Un_upper2 set_append rev_rev_ident trim_space_def)
  then show ?thesis by auto
qed

text \<open>An entry as it should be: not empty, no white space at its ends, no comma.\<close>

definition clean_entry :: "string \<Rightarrow> bool" where
  "clean_entry p \<longleftrightarrow> p \<noteq> [] \<and> trim_space p = p \<and> CHR '','' \<notin> set p"

fun join_commas :: "string list \<Rightarrow> string" where
  "join_commas [] = []"
| "join_commas [p] = p"
| "join_commas (p # q # ps) = p @ '','' @ join_commas (q # ps)"

lemma split_on_free: "c \<notin> set p \<Longrightarrow> split_on c p = [p]"
  by (induction p) auto

lemma split_on_join: "c \<notin> set p \<Longrightarrow> split_on c (p @ c # s) = p # split_on c s"
  by (induction p) (auto split: list.splits)

lemma split_join_commas: "list_all clean_entry ps \<Longrightarrow> ps \<noteq> [] \<Longrightarrow> split_on (CHR '','') (join_commas ps) = ps"
  by (induction ps rule: join_commas.induct) (auto simp: clean_entry_def split_on_free split_on_join)

lemma join_commas_not_Nil: "list_all clean_entry ps \<Longrightarrow> ps \<noteq> [] \<Longrightarrow> join_commas ps \<noteq> []"
  by (induction ps rule: join_commas.induct) (auto simp: clean_entry_def)

lemma trimmed_clean: "list_all clean_entry ps \<Longrightarrow> trimmed_parts ps = ps"
  by (induction ps) (auto simp: clean_entry_def Let_def)

text \<open>
  What a list variable gives. Whatever the variable holds, every entry of the list is clean: not
  empty, without white space at its ends, without a comma; and a list of clean entries written with
  commas between them is read back as it is.
\<close>

lemma list_variable_round_trip:
  assumes "list_all clean_entry ps" and "ps \<noteq> []" and "env key = join_commas ps"
  shows "envListOrDefault env key fallback = ps \<and> list_all clean_entry (envListOrDefault env' key' [])"
proof -
  have "list_all clean_entry (trimmed_parts (split_on (CHR '','') v))" for v
    using split_on_no_sep [of _ "CHR '',''" v] trim_space_subset
    by (fastforce simp: trimmed_parts_eq list_all_iff clean_entry_def)
  then show ?thesis
    using assms by (simp add: envListOrDefault_def Let_def split_join_commas join_commas_not_Nil trimmed_clean)
qed

text \<open>A list variable that is set but holds nothing is the empty list, not the default.\<close>

lemma empty_list_variable: "envListOrDefault (\<lambda>k. '', ,'') key fallback = []"
proof -
  have "trimmed_parts (split_on (CHR '','') '', ,'') = []" by code_simp
  then show ?thesis by (simp add: envListOrDefault_def)
qed

text \<open>What is not set, or does not parse, is the default.\<close>

lemma defaults_kept:
  "env k = [] \<Longrightarrow> envOrDefault env k s = s"
  "atoi (env k) = None \<Longrightarrow> envIntOrDefault env k n = n"
  "parse_bool (env k) = None \<Longrightarrow> envBoolOrDefault env k b = b"
  "parse_duration (env k) = None \<Longrightarrow> envDurationOrDefault env k d = d"
  "env k = [] \<Longrightarrow> envListOrDefault env k l = l"
  by (simp_all add: envOrDefault_def envIntOrDefault_def envBoolOrDefault_def envDurationOrDefault_def envListOrDefault_def Let_def)

end
