(* ===== verification/Potential.thy ===== *)
theory Potential
  imports Main
begin

section \<open>Runs of operations and the potential method\<close>

text \<open>
  Sequences of operations on a state: where they lead (\<open>run_ops\<close>), what they add up to
  (\<open>sum_ops\<close>), whether each is admissible where it happens (\<open>all_ops\<close>). The locale \<open>potential\<close> is
  the bookkeeping argument for a bound on a sum: every operation's cost, and the change of a
  non-negative potential, is covered by an income.
\<close>

fun run_ops :: "('op \<Rightarrow> 's \<Rightarrow> 's) \<Rightarrow> 'op list \<Rightarrow> 's \<Rightarrow> 's" where
  "run_ops step [] s = s"
| "run_ops step (x # xs) s = run_ops step xs (step x s)"

fun sum_ops :: "('op \<Rightarrow> 's \<Rightarrow> 's) \<Rightarrow> ('op \<Rightarrow> 's \<Rightarrow> int) \<Rightarrow> 'op list \<Rightarrow> 's \<Rightarrow> int" where
  "sum_ops step f [] s = 0"
| "sum_ops step f (x # xs) s = f x s + sum_ops step f xs (step x s)"

fun all_ops :: "('op \<Rightarrow> 's \<Rightarrow> 's) \<Rightarrow> ('op \<Rightarrow> 's \<Rightarrow> bool) \<Rightarrow> 'op list \<Rightarrow> 's \<Rightarrow> bool" where
  "all_ops step ok [] s = True"
| "all_ops step ok (x # xs) s = (ok x s \<and> all_ops step ok xs (step x s))"

lemma run_ops_append: "run_ops step (xs @ ys) s = run_ops step ys (run_ops step xs s)"
  by (induction xs arbitrary: s) auto

lemma all_ops_append: "all_ops step ok (xs @ ys) s \<longleftrightarrow> all_ops step ok xs s \<and> all_ops step ok ys (run_ops step xs s)"
  by (induction xs arbitrary: s) auto

lemma sum_ops_times: "sum_ops step (\<lambda>x s. f x s * k) xs s = sum_ops step f xs s * k"
  by (induction xs arbitrary: s) (simp_all add: algebra_simps)

text \<open>An income that is the growth of a quantity adds up to its growth over the run.\<close>

lemma sum_ops_telescope: "sum_ops step (\<lambda>x s. k * (g (step x s) - g s)) xs s = k * (g (run_ops step xs s) - g s)"
  by (induction xs arbitrary: s) (simp_all add: algebra_simps)

locale potential =
  fixes step :: "'op \<Rightarrow> 's \<Rightarrow> 's" and cost income :: "'op \<Rightarrow> 's \<Rightarrow> int" and pot :: "'s \<Rightarrow> int"
    and inv :: "'s \<Rightarrow> bool" and ok :: "'op \<Rightarrow> 's \<Rightarrow> bool"
  assumes keeps: "inv s \<Longrightarrow> ok x s \<Longrightarrow> inv (step x s)"
    and pays: "inv s \<Longrightarrow> ok x s \<Longrightarrow> cost x s + pot (step x s) \<le> pot s + income x s"
    and solvent: "inv s \<Longrightarrow> 0 \<le> pot s"
begin

lemma run_keeps: "inv s \<Longrightarrow> all_ops step ok xs s \<Longrightarrow> inv (run_ops step xs s)"
  by (induction xs arbitrary: s) (auto intro: keeps)

lemma sum_bound:
  "inv s \<Longrightarrow> all_ops step ok xs s \<Longrightarrow>
     sum_ops step cost xs s + pot (run_ops step xs s) \<le> pot s + sum_ops step income xs s"
proof (induction xs arbitrary: s)
  case (Cons x xs)
  then have "sum_ops step cost xs (step x s) + pot (run_ops step xs (step x s)) \<le> pot (step x s) + sum_ops step income xs (step x s)"
    by (intro Cons.IH keeps) auto
  with Cons.prems pays [of s x] show ?case by simp
qed simp

lemma cost_bound: "inv s \<Longrightarrow> all_ops step ok xs s \<Longrightarrow> sum_ops step cost xs s \<le> pot s + sum_ops step income xs s"
  using sum_bound [of s xs] solvent [OF run_keeps, of s xs] by simp

end

end
