(* ===== verification/Rate_Limiter.thy ===== *)
theory Rate_Limiter
  imports Interfaces Potential
begin

section \<open>The rate limiter\<close>

text \<open>
  \<open>api/middleware.go\<close>: \<open>rateLimiter\<close>, \<open>visitor\<close>, \<open>allow\<close> and \<open>cleanup\<close>. The mutex makes each
  call one step. Times are the nanoseconds of Go's monotonic clock. \<open>elapsed.Seconds()\<close> is a
  \<open>float64\<close>; below 2 to the 24 seconds (194 days, and \<open>cleanup\<close> drops a visitor idle for five
  minutes) it truncates to the integer quotient.

  What the limiter admits is bounded with the potential method: the state of a bucket is its
  potential, the passing of time its income (locale \<open>potential\<close>).
\<close>

record visitor =
  tokens :: int64
  lastSeen :: int

record rate_limiter =
  visitors :: "string \<rightharpoonup> visitor"
  rate :: int64
  burst :: int64

definition new_rate_limiter :: "int64 \<Rightarrow> int64 \<Rightarrow> rate_limiter" where
  "new_rate_limiter r b = \<lparr>visitors = Map.empty, rate = r, burst = b\<rparr>"

definition int_seconds :: "int \<Rightarrow> int" where
  "int_seconds elapsed = (if elapsed < 0 then - ((- elapsed) div second) else elapsed div second)"

text \<open>The bucket of a known visitor, \<open>since\<close> and \<open>now\<close> being the two readings of the clock.\<close>

definition refill :: "rate_limiter \<Rightarrow> visitor \<Rightarrow> int \<Rightarrow> int64" where
  "refill rl v since =
     (let n = tokens v + word_of_int (int_seconds (since - lastSeen v)) * rate rl in
      if sless64 (burst rl) n then burst rl else n)"

definition allow_at :: "rate_limiter \<Rightarrow> string \<Rightarrow> int \<Rightarrow> int \<Rightarrow> bool \<times> rate_limiter" where
  "allow_at rl ip since now =
     (case visitors rl ip of
        None \<Rightarrow> (True, rl\<lparr>visitors := (visitors rl)(ip \<mapsto> \<lparr>tokens = burst rl - 1, lastSeen = now\<rparr>)\<rparr>)
      | Some v \<Rightarrow>
          (let n = refill rl v since in
           if \<not> sless64 0 n then (False, rl\<lparr>visitors := (visitors rl)(ip \<mapsto> \<lparr>tokens = n, lastSeen = now\<rparr>)\<rparr>)
           else (True, rl\<lparr>visitors := (visitors rl)(ip \<mapsto> \<lparr>tokens = n - 1, lastSeen = now\<rparr>)\<rparr>)))"

definition allow :: "'w runtime \<Rightarrow> rate_limiter \<Rightarrow> string \<Rightarrow> ('w, bool \<times> rate_limiter) state" where
  "allow rt rl ip =
     (case visitors rl ip of
        None \<Rightarrow> do { now \<leftarrow> rt_now rt; State_Monad.return (allow_at rl ip now now) }
      | Some v \<Rightarrow> do {
          since \<leftarrow> rt_now rt;
          now \<leftarrow> rt_now rt;
          State_Monad.return (allow_at rl ip since now)
        })"

text \<open>\<open>cleanup\<close> reads the clock once for every visitor: \<open>now ip\<close> is that reading.\<close>

definition cleanup :: "(string \<Rightarrow> int) \<Rightarrow> rate_limiter \<Rightarrow> rate_limiter" where
  "cleanup now rl = rl\<lparr>visitors := (\<lambda>ip. case visitors rl ip of
     None \<Rightarrow> None
   | Some v \<Rightarrow> if 5 * minute < now ip - lastSeen v then None else Some v)\<rparr>"

subsection \<open>Runs of the limiter\<close>

text \<open>
  What happens to a limiter, with the clock: a request with its readings, or a sweep of \<open>cleanup\<close>
  that ends at a given time. The state is the limiter with the time of the last event.
\<close>

datatype rl_op = Request string int int | Sweep "string \<Rightarrow> int" int

fun rl_step :: "rl_op \<Rightarrow> rate_limiter \<times> int \<Rightarrow> rate_limiter \<times> int" where
  "rl_step (Request ip since now) (rl, t) = (snd (allow_at rl ip since now), now)"
| "rl_step (Sweep r now) (rl, t) = (cleanup r rl, now)"

fun admits :: "string \<Rightarrow> rl_op \<Rightarrow> rate_limiter \<times> int \<Rightarrow> int" where
  "admits ip (Request ip' since now) (rl, t) = (if ip' = ip \<and> fst (allow_at rl ip since now) then 1 else 0)"
| "admits ip (Sweep r now) (rl, t) = 0"

definition admitted :: "string \<Rightarrow> rl_op list \<Rightarrow> rate_limiter \<times> int \<Rightarrow> int" where
  "admitted ip ops s = sum_ops rl_step (admits ip) ops s"

text \<open>The clock does not run backwards, and fits its 63 bits.\<close>

fun in_time :: "string \<Rightarrow> rl_op \<Rightarrow> int \<Rightarrow> bool" where
  "in_time ip (Request ip' since now) t \<longleftrightarrow> t \<le> since \<and> since \<le> now \<and> now < 2 ^ 63"
| "in_time ip (Sweep r now) t \<longleftrightarrow> t \<le> r ip \<and> r ip \<le> now \<and> now < 2 ^ 63"

fun op_end :: "rl_op \<Rightarrow> int" where
  "op_end (Request ip since now) = now"
| "op_end (Sweep r now) = now"

definition timed :: "string \<Rightarrow> rl_op list \<Rightarrow> rate_limiter \<times> int \<Rightarrow> bool" where
  "timed ip ops s = all_ops rl_step (\<lambda>x s. in_time ip x (snd s)) ops s"

text \<open>A rate and a burst for which the sums stay in range and five idle minutes fill the bucket.\<close>

definition sane :: "int64 \<Rightarrow> int64 \<Rightarrow> bool" where
  "sane r b \<longleftrightarrow> 0 < sint b \<and> 0 \<le> sint r \<and> sint r \<le> 1000000 \<and> sint b \<le> 300 * sint r"

definition rl_inv :: "int64 \<Rightarrow> int64 \<Rightarrow> string \<Rightarrow> rate_limiter \<times> int \<Rightarrow> bool" where
  "rl_inv r b ip s \<longleftrightarrow> sane r b \<and> rate (fst s) = r \<and> burst (fst s) = b \<and> 0 \<le> snd s \<and>
     (case visitors (fst s) ip of
        None \<Rightarrow> True
      | Some v \<Rightarrow> 0 \<le> sint (tokens v) \<and> sint (tokens v) \<le> sint b \<and> 0 \<le> lastSeen v \<and> lastSeen v \<le> snd s)"

text \<open>The potential: a billion per token in the bucket, with what time has added to it since.\<close>

definition rl_pot :: "string \<Rightarrow> rate_limiter \<times> int \<Rightarrow> int" where
  "rl_pot ip s = (case visitors (fst s) ip of
     None \<Rightarrow> sint (burst (fst s)) * second
   | Some v \<Rightarrow> min (sint (burst (fst s)) * second)
       (sint (tokens v) * second + sint (rate (fst s)) * (snd s - lastSeen v)))"

lemma second_pos: "0 < second" by (simp add: second_def)

lemma sint_refill:
  assumes "sane (rate rl) (burst rl)" and "0 \<le> sint (tokens v)" and "sint (tokens v) \<le> sint (burst rl)"
    and "0 \<le> since - lastSeen v" and "since - lastSeen v < 2 ^ 63"
  shows "sint (refill rl v since) =
    min (sint (burst rl)) (sint (tokens v) + (since - lastSeen v) div second * sint (rate rl))"
proof -
  let ?e = "(since - lastSeen v) div second"
  have e: "0 \<le> ?e" "?e \<le> 9223372037" using assms(4,5) by (auto simp: second_def)
  have "0 \<le> ?e * sint (rate rl)" "?e * sint (rate rl) \<le> 9223372037 * 1000000"
    using e assms(1) mult_mono [of ?e 9223372037 "sint (rate rl)" 1000000] by (auto simp: sane_def)
  moreover have "sint (burst rl) \<le> 300 * 1000000" using assms(1) by (auto simp: sane_def)
  ultimately have range: "- (2 ^ 63) \<le> sint (tokens v) + ?e * sint (rate rl)" "sint (tokens v) + ?e * sint (rate rl) < 2 ^ 63"
    using assms(2,3) by simp_all
  have "tokens v + word_of_int ?e * rate rl = word_of_int (sint (tokens v) + ?e * sint (rate rl))" by simp
  then have "sint (tokens v + word_of_int ?e * rate rl) = sint (tokens v) + ?e * sint (rate rl)"
    using sint64_of_int [OF range] by simp
  then show ?thesis using assms(4) by (simp add: refill_def int_seconds_def Let_def sless64_def)
qed

lemma sint_minus_one: "0 < sint (n :: int64) \<Longrightarrow> sint (n - 1) = sint n - 1"
  using sint64_of_int [of "sint n - 1"] sint64_range [of n] by simp

lemma refill_paid:
  assumes "sane (rate rl) (burst rl)" and "0 \<le> sint (tokens v)" and "sint (tokens v) \<le> sint (burst rl)"
    and "0 \<le> lastSeen v" and "lastSeen v \<le> t" and "t \<le> since" and "since < 2 ^ 63"
  shows "sint (refill rl v since) * second \<le>
    min (sint (burst rl) * second) (sint (tokens v) * second + sint (rate rl) * (t - lastSeen v)) + sint (rate rl) * (since - t)"
    and "0 \<le> sint (refill rl v since)" and "sint (refill rl v since) \<le> sint (burst rl)"
proof -
  let ?r = "sint (rate rl)" and ?e = "since - lastSeen v"
  have r: "sint (refill rl v since) = min (sint (burst rl)) (sint (tokens v) + ?e div second * ?r)"
    by (rule sint_refill) (use assms in auto)
  have pos: "0 \<le> ?r" "0 \<le> ?e div second" using assms second_pos by (auto simp: sane_def pos_imp_zdiv_nonneg_iff)
  then show "0 \<le> sint (refill rl v since)" "sint (refill rl v since) \<le> sint (burst rl)"
    using assms(1,2) unfolding r sane_def by auto
  have "?e div second * second \<le> ?e" using second_pos by (simp add: minus_mod_eq_div_mult [symmetric])
  then have "?e div second * second * ?r \<le> ?e * ?r" using pos by (intro mult_right_mono)
  then have "(sint (tokens v) + ?e div second * ?r) * second \<le> sint (tokens v) * second + ?r * ?e"
    by (simp add: algebra_simps)
  moreover have "0 \<le> ?r * (since - t)" using pos assms by simp
  moreover have "?r * ?e = ?r * (t - lastSeen v) + ?r * (since - t)" by (simp add: algebra_simps)
  moreover have "min (sint (burst rl)) x * second = min (sint (burst rl) * second) (x * second)" for x
    using second_pos by (simp add: min_mult_distrib_right)
  ultimately show "sint (refill rl v since) * second \<le>
    min (sint (burst rl) * second) (sint (tokens v) * second + ?r * (t - lastSeen v)) + ?r * (since - t)"
    unfolding r by (simp add: min_def)
qed

lemma rl_step_end [simp]: "snd (rl_step x s) = op_end x"
  by (cases x; cases s) auto

text \<open>One event: the invariant stays, and the potential pays for what is admitted.\<close>

lemma rl_step_inv:
  assumes "rl_inv r b ip s" and "in_time ip x (snd s)"
  shows "rl_inv r b ip (rl_step x s)"
proof -
  obtain rl t where s: "s = (rl, t)" by fastforce
  show ?thesis
  proof (cases x)
    case (Request ip' since now)
    note inv = assms [unfolded s Request]
    show ?thesis
    proof (cases "visitors rl ip'")
      case None
      then show ?thesis using inv
        by (auto simp: s Request rl_inv_def allow_at_def sane_def sint_minus_one split: option.splits)
    next
      case (Some v)
      have "0 \<le> sint (refill rl v since) \<and> sint (refill rl v since) \<le> sint b" if "ip' = ip"
        using refill_paid(2,3) [of rl v t since] inv Some that by (auto simp: rl_inv_def)
      then show ?thesis using inv Some
        by (auto simp: s Request rl_inv_def allow_at_def Let_def sless64_def sint_minus_one split: option.splits)
    qed
  next
    case (Sweep f now)
    then show ?thesis using assms by (auto simp: s rl_inv_def cleanup_def split: option.splits)
  qed
qed

text \<open>Time alone: what a bucket gains is at most the income.\<close>

lemma bucket_waits:
  assumes "0 \<le> k" and "t \<le> now"
  shows "min B (A + k * (now - l)) \<le> min B (A + k * (t - l)) + k * (now - (t :: int))"
proof -
  have "k * (now - l) = k * (t - l) + k * (now - t)" by (simp add: algebra_simps)
  moreover have "0 \<le> k * (now - t)" using assms by simp
  ultimately show ?thesis by (simp add: min_def)
qed

lemma request_pays:
  assumes "rl_inv r b ip (rl, t)" and "in_time ip (Request ip since now) t"
  shows "admits ip (Request ip since now) (rl, t) * second + rl_pot ip (rl_step (Request ip since now) (rl, t)) \<le>
    rl_pot ip (rl, t) + sint r * (now - t)"
proof (cases "visitors rl ip")
  case None
  have "0 \<le> sint r * (now - t)" using assms by (auto simp: sane_def rl_inv_def)
  with None show ?thesis using assms second_pos
    by (auto simp: rl_pot_def allow_at_def rl_inv_def sane_def sint_minus_one algebra_simps min_def)
next
  case (Some v)
  note bounds = assms [unfolded rl_inv_def]
  let ?n = "refill rl v since"
  have n: "sint ?n * second \<le> rl_pot ip (rl, t) + sint r * (since - t)" "0 \<le> sint ?n" "sint ?n \<le> sint b"
    using refill_paid [of rl v t since] bounds Some by (auto simp: rl_pot_def)
  have later: "sint r * (since - t) \<le> sint r * (now - t)" using assms by (intro mult_left_mono) (auto simp: sane_def rl_inv_def)
  show ?thesis
  proof (cases "0 < sint ?n")
    case True
    then have "sint (?n - 1) * second = sint ?n * second - second"
      by (simp only: sint_minus_one left_diff_distrib mult_1)
    moreover have "rl_pot ip (rl_step (Request ip since now) (rl, t)) \<le> sint (?n - 1) * second"
      using Some True by (simp add: rl_pot_def allow_at_def Let_def sless64_def)
    moreover have "admits ip (Request ip since now) (rl, t) = 1"
      using Some True by (simp add: allow_at_def Let_def sless64_def)
    ultimately show ?thesis using n(1) later by simp
  next
    case False
    then have "rl_pot ip (rl_step (Request ip since now) (rl, t)) \<le> sint ?n * second"
      using Some by (simp add: rl_pot_def allow_at_def Let_def sless64_def)
    moreover have "admits ip (Request ip since now) (rl, t) = 0"
      using Some False by (simp add: allow_at_def Let_def sless64_def)
    ultimately show ?thesis using n(1) later by simp
  qed
qed

lemma other_pays:
  assumes "rl_inv r b ip (rl, t)" and "in_time ip (Request ip' since now) t" and "ip' \<noteq> ip"
  shows "admits ip (Request ip' since now) (rl, t) * second + rl_pot ip (rl_step (Request ip' since now) (rl, t)) \<le>
    rl_pot ip (rl, t) + sint r * (now - t)"
proof -
  have "0 \<le> sint r * (now - t)" using assms by (auto simp: sane_def rl_inv_def)
  moreover have "visitors (snd (allow_at rl ip' since now)) ip = visitors rl ip" "burst (snd (allow_at rl ip' since now)) = burst rl"
    "rate (snd (allow_at rl ip' since now)) = rate rl"
    using assms(3) by (auto simp: allow_at_def Let_def split: option.split)
  ultimately show ?thesis
    using assms bucket_waits [of "sint r" t now]
    by (auto simp: rl_pot_def rl_inv_def sane_def split: option.splits)
qed

lemma sweep_pays:
  assumes "rl_inv r b ip (rl, t)" and "in_time ip (Sweep f now) t"
  shows "rl_pot ip (rl_step (Sweep f now) (rl, t)) \<le> rl_pot ip (rl, t) + sint r * (now - t)"
proof -
  have pos: "0 \<le> sint r * (now - t)" using assms by (auto simp: sane_def rl_inv_def)
  show ?thesis
  proof (cases "visitors rl ip")
    case (Some v)
    show ?thesis
    proof (cases "5 * minute < f ip - lastSeen v")
      case True
      then have "300 * second \<le> now - lastSeen v" using assms(2) by (simp add: minute_def second_def)
      then have "sint r * (300 * second) \<le> sint r * (now - lastSeen v)"
        using assms(1) by (intro mult_left_mono) (auto simp: sane_def rl_inv_def)
      moreover have "sint b * second \<le> 300 * sint r * second"
        using assms(1) second_pos by (intro mult_right_mono) (auto simp: sane_def rl_inv_def)
      moreover have "0 \<le> sint (tokens v) * second" using assms(1) Some second_pos by (auto simp: rl_inv_def)
      ultimately have "sint b * second \<le> sint (tokens v) * second + sint r * (now - lastSeen v)" by simp
      then show ?thesis
        using True Some assms pos bucket_waits [of "sint r" t now "sint b * second" "sint (tokens v) * second" "lastSeen v"]
        by (auto simp: rl_pot_def rl_inv_def cleanup_def sane_def)
    next
      case False
      with Some assms show ?thesis using bucket_waits [of "sint r" t now]
        by (auto simp: rl_pot_def rl_inv_def cleanup_def sane_def)
    qed
  qed (use pos assms in \<open>auto simp: rl_pot_def rl_inv_def cleanup_def\<close>)
qed

interpretation bucket: potential rl_step "\<lambda>x s. admits ip x s * second" "\<lambda>x s. sint r * (snd (rl_step x s) - snd s)"
    "rl_pot ip" "rl_inv r b ip" "\<lambda>x s. in_time ip x (snd s)"
  for r b ip
proof
  fix s :: "rate_limiter \<times> int" and x
  show "rl_inv r b ip (rl_step x s)" if "rl_inv r b ip s" "in_time ip x (snd s)"
    using that by (rule rl_step_inv)
  show "admits ip x s * second + rl_pot ip (rl_step x s) \<le> rl_pot ip s + sint r * (snd (rl_step x s) - snd s)"
    if "rl_inv r b ip s" "in_time ip x (snd s)"
  proof (cases x; cases s)
    fix ip' since now rl t
    assume "x = Request ip' since now" "s = (rl, t)"
    then show ?thesis
      using that request_pays [of r b ip rl t since now] other_pays [of r b ip rl t ip' since now] by (cases "ip' = ip") auto
  next
    fix f now rl t
    assume "x = Sweep f now" "s = (rl, t)"
    then show ?thesis using that sweep_pays [of r b ip rl t f now] by auto
  qed
  show "0 \<le> rl_pot ip s" if "rl_inv r b ip s"
    using that second_pos
    by (auto simp: rl_pot_def rl_inv_def sane_def intro!: mult_nonneg_nonneg add_nonneg_nonneg split: option.splits)
qed

subsection \<open>What a client gets\<close>

text \<open>
  C16: The rate is a bound. For the limiter the server creates, and any with a burst that five
  minutes refill, in every window of every run, among requests of other clients and sweeps that
  drop idle visitors, a client is admitted at most the burst plus the rate times the length of the
  window, and its tokens stay between none and the burst (the arithmetic does not wrap around).
\<close>

theorem admitted_at_most:
  assumes "sane r b" and "0 \<le> start" and "timed ip (before @ window) (new_rate_limiter r b, start)"
  shows "let s = run_ops rl_step before (new_rate_limiter r b, start);
             duration = snd (run_ops rl_step window s) - snd s in
         admitted ip window s \<le> sint b + sint r * duration div second \<and>
         (case visitors (fst s) ip of None \<Rightarrow> True | Some v \<Rightarrow> 0 \<le> sint (tokens v) \<and> sint (tokens v) \<le> sint b)"
proof -
  let ?s = "run_ops rl_step before (new_rate_limiter r b, start)"
  let ?d = "snd (run_ops rl_step window ?s) - snd ?s"
  have start: "rl_inv r b ip (new_rate_limiter r b, start)" using assms by (simp add: rl_inv_def new_rate_limiter_def)
  have ok: "all_ops rl_step (\<lambda>x s. in_time ip x (snd s)) before (new_rate_limiter r b, start)"
    "all_ops rl_step (\<lambda>x s. in_time ip x (snd s)) window ?s"
    using assms(3) by (simp_all add: timed_def all_ops_append)
  have inv: "rl_inv r b ip ?s" using bucket.run_keeps [OF start ok(1)] .
  have "admitted ip window ?s * second \<le> rl_pot ip ?s + sint r * ?d"
    using bucket.cost_bound [OF inv ok(2)] by (simp only: admitted_def sum_ops_times sum_ops_telescope)
  also have "rl_pot ip ?s \<le> sint b * second" using inv by (auto simp: rl_pot_def rl_inv_def split: option.split)
  finally have "admitted ip window ?s * second \<le> sint b * second + sint r * ?d" by simp
  then have "admitted ip window ?s \<le> (sint b * second + sint r * ?d) div second"
    using zdiv_mono1 [OF _ second_pos] by (metis nonzero_mult_div_cancel_right less_irrefl second_pos)
  then show ?thesis using second_pos inv by (auto simp: Let_def rl_inv_def split: option.splits)
qed

definition half_seconds :: "rl_op list" where
  "half_seconds = map (\<lambda>k. Request ''203.0.113.7'' (k * 500000000) (k * 500000000)) [1, 2, 3, 4]"

theorem admitted_at_most_witness:
  "sane 100 200 \<and> timed ''203.0.113.7'' half_seconds (new_rate_limiter 100 200, 0) \<and>
   admitted ''203.0.113.7'' half_seconds (new_rate_limiter 100 200, 0) \<le> 400"
proof -
  have t: "timed ''203.0.113.7'' half_seconds (new_rate_limiter 100 200, 0)"
    by (simp add: timed_def half_seconds_def)
  have e: "snd (run_ops rl_step half_seconds (new_rate_limiter 100 200, 0)) = 2000000000"
    by (simp add: half_seconds_def)
  show ?thesis
    using admitted_at_most [of 100 200 0 "''203.0.113.7''" "[]" half_seconds] t e
    by (simp add: Let_def sane_def second_def)
qed

text \<open>
  Requests of a client with less than a second between each and the one before, among sweeps that
  find the client active.
\<close>

fun hasty :: "string \<Rightarrow> rl_op list \<Rightarrow> int \<Rightarrow> bool" where
  "hasty ip [] last_seen = True"
| "hasty ip (Request ip' since now # ops) last_seen =
     (if ip' = ip then 0 \<le> since - last_seen \<and> since - last_seen < second \<and> hasty ip ops now
      else hasty ip ops last_seen)"
| "hasty ip (Sweep r now # ops) last_seen = (r ip - last_seen \<le> 5 * minute \<and> hasty ip ops last_seen)"

lemma refill_hasty:
  assumes "0 \<le> since - lastSeen v" and "since - lastSeen v < second" and "sint (tokens v) \<le> 0"
  shows "sint (refill rl v since) \<le> 0"
proof -
  have "int_seconds (since - lastSeen v) = 0" using assms by (simp add: int_seconds_def)
  then show ?thesis using assms(3) by (simp add: refill_def Let_def sless64_def)
qed

text \<open>
  C38: A client that keeps asking is never refilled. Once its bucket is empty, a client whose
  requests come less than a second apart is refused every time, however long it goes on and however
  far below the rate it stays: each request starts the second anew.
\<close>

theorem hasty_client_starves:
  assumes "visitors (fst s) ip = Some v" and "sint (tokens v) \<le> 0" and "hasty ip ops (lastSeen v)"
  shows "admitted ip ops s = 0"
  using assms
proof (induction ops arbitrary: s v)
  case (Cons x ops)
  obtain rl t where s: "s = (rl, t)" by fastforce
  show ?case
  proof (cases x)
    case (Request ip' since now)
    show ?thesis
    proof (cases "ip' = ip")
      case True
      have n: "sint (refill rl v since) \<le> 0" using refill_hasty [of since v rl] Cons.prems Request True by simp
      then have "visitors (fst (rl_step x s)) ip = Some \<lparr>tokens = refill rl v since, lastSeen = now\<rparr>"
        using Cons.prems Request True s by (simp add: allow_at_def Let_def sless64_def)
      from Cons.IH [OF this] n Cons.prems Request True s show ?thesis
        by (simp add: admitted_def allow_at_def Let_def sless64_def)
    next
      case False
      then have "visitors (fst (rl_step x s)) ip = Some v"
        using Cons.prems Request s by (simp add: allow_at_def Let_def split: option.split)
      from Cons.IH [OF this] False Cons.prems Request s show ?thesis by (simp add: admitted_def)
    qed
  next
    case (Sweep r now)
    then have "visitors (fst (rl_step x s)) ip = Some v" using Cons.prems s by (simp add: cleanup_def)
    from Cons.IH [OF this] Cons.prems Sweep s show ?thesis by (simp add: admitted_def)
  qed
qed (simp add: admitted_def)

theorem hasty_client_starves_witness:
  "admitted ''203.0.113.7'' half_seconds
     ((new_rate_limiter 100 200)\<lparr>visitors := [''203.0.113.7'' \<mapsto> \<lparr>tokens = 0, lastSeen = 0\<rparr>]\<rparr>, 0) = 0"
  by (rule hasty_client_starves [of _ _ "\<lparr>tokens = 0, lastSeen = 0\<rparr>"]) (simp_all add: half_seconds_def second_def)

end
