(* ===== verification/Http.thy ===== *)
theory Http
  imports Rate_Limiter
begin

section \<open>Requests, responses and handlers of net/http\<close>

text \<open>
  What the API server uses of \<open>net/http\<close>: a request's method, path, peer address and headers
  (\<open>Header.Get\<close> as a function of the canonical name, empty when absent); a response whose headers
  are those set when the status goes out, whose status is the first one written (200 when the body
  comes first), and whose body is what was written. A handler returns or panics. It runs on the
  response, the process's rate limiter and the outside state.
\<close>

record request =
  rq_method :: string
  rq_path :: string
  rq_remote :: string
  rq_header :: "string \<Rightarrow> string"

record response =
  rs_header :: "string \<rightharpoonup> string"
  rs_sent :: "string \<rightharpoonup> string"
  rs_status :: "nat option"
  rs_body :: string

definition new_response :: response where
  "new_response = \<lparr>rs_header = Map.empty, rs_sent = Map.empty, rs_status = None, rs_body = []\<rparr>"

definition StatusOK :: nat where "StatusOK = 200"
definition StatusUnauthorized :: nat where "StatusUnauthorized = 401"
definition StatusMethodNotAllowed :: nat where "StatusMethodNotAllowed = 405"
definition StatusTooManyRequests :: nat where "StatusTooManyRequests = 429"
definition StatusInternalServerError :: nat where "StatusInternalServerError = 500"
definition StatusServiceUnavailable :: nat where "StatusServiceUnavailable = 503"

lemmas status_defs = StatusOK_def StatusUnauthorized_def StatusMethodNotAllowed_def StatusTooManyRequests_def
  StatusInternalServerError_def StatusServiceUnavailable_def

definition header_set :: "string \<Rightarrow> string \<Rightarrow> response \<Rightarrow> response" where
  "header_set k v rs = rs\<lparr>rs_header := (rs_header rs)(k \<mapsto> v)\<rparr>"

definition header_del :: "string \<Rightarrow> response \<Rightarrow> response" where
  "header_del k rs = rs\<lparr>rs_header := (rs_header rs)(k := None)\<rparr>"

definition write_header :: "nat \<Rightarrow> response \<Rightarrow> response" where
  "write_header code rs = (case rs_status rs of
     None \<Rightarrow> rs\<lparr>rs_status := Some code, rs_sent := rs_header rs\<rparr>
   | Some _ \<Rightarrow> rs)"

definition write_body :: "string \<Rightarrow> response \<Rightarrow> response" where
  "write_body s rs = (let rs' = write_header StatusOK rs in rs'\<lparr>rs_body := rs_body rs' @ s\<rparr>)"

definition http_error :: "string \<Rightarrow> nat \<Rightarrow> response \<Rightarrow> response" where
  "http_error msg code rs =
     write_body (msg @ [CHR 0x0A]) (write_header code
       (header_set ''X-Content-Type-Options'' ''nosniff''
         (header_set ''Content-Type'' ''text/plain; charset=utf-8'' (header_del ''Content-Length'' rs))))"

lemmas response_defs = header_set_def header_del_def write_header_def write_body_def http_error_def Let_def

record 'w http =
  hx_response :: response
  hx_limiter :: rate_limiter
  hx_world :: 'w

datatype served = Served | HandlerPanicked

type_synonym 'w handler = "request \<Rightarrow> ('w http, served) state"

definition respond :: "(response \<Rightarrow> response) \<Rightarrow> ('w http, unit) state" where
  "respond f = State (\<lambda>h. ((), h\<lparr>hx_response := f (hx_response h)\<rparr>))"

definition outside :: "('w, 'a) state \<Rightarrow> ('w http, 'a) state" where
  "outside m = State (\<lambda>h. case run_state m (hx_world h) of (r, w) \<Rightarrow> (r, h\<lparr>hx_world := w\<rparr>))"

lemma run_respond [simp]: "run_state (respond f) h = ((), h\<lparr>hx_response := f (hx_response h)\<rparr>)"
  by (simp add: respond_def)

lemma run_outside [simp]: "run_state (outside m) h =
    (fst (run_state m (hx_world h)), h\<lparr>hx_world := snd (run_state m (hx_world h))\<rparr>)"
  by (simp add: outside_def split: prod.splits)

subsection \<open>Middleware that lets a request pass or answers it\<close>

text \<open>
  The contract of a guard: an admitted request reaches the next handler, on a prepared state; any
  other is answered by the guard itself, whatever the next handler is. Guards compose.
\<close>

locale guard =
  fixes mw :: "'w handler \<Rightarrow> 'w handler" and admit :: "request \<Rightarrow> 'w http \<Rightarrow> bool"
    and prepare answer :: "request \<Rightarrow> 'w http \<Rightarrow> 'w http"
  assumes passes: "admit r h \<Longrightarrow> run_state (mw next r) h = run_state (next r) (prepare r h)"
    and refuses: "\<not> admit r h \<Longrightarrow> run_state (mw next r) h = (Served, answer r h)"
begin

lemma run_guard: "run_state (mw next r) h =
    (if admit r h then run_state (next r) (prepare r h) else (Served, answer r h))"
  by (simp add: passes refuses)

end

locale guard_chain = outer: guard mw1 admit1 prepare1 answer1 + inner: guard mw2 admit2 prepare2 answer2
  for mw1 mw2 :: "'w handler \<Rightarrow> 'w handler" and admit1 admit2 prepare1 prepare2 answer1 answer2

sublocale guard_chain \<subseteq> guard "\<lambda>next. mw1 (mw2 next)" "\<lambda>r h. admit1 r h \<and> admit2 r (prepare1 r h)"
    "\<lambda>r h. prepare2 r (prepare1 r h)" "\<lambda>r h. if admit1 r h then answer2 r (prepare1 r h) else answer1 r h"
  by unfold_locales (auto simp: outer.run_guard inner.run_guard)

end
