(* ===== verification/Middleware.thy ===== *)
theory Middleware
  imports Http
begin

section \<open>The HTTP middleware\<close>

text \<open>
  \<open>api/middleware.go\<close>: CORS, the API key, panic recovery and the rate limit, as functions from a
  handler to a handler. All but the panic recovery are guards.
\<close>

definition reject_json :: "nat \<Rightarrow> string \<Rightarrow> response \<Rightarrow> response" where
  "reject_json code body rs =
     write_body body (write_header code (header_set ''Content-Type'' ''application/json'' rs))"

text \<open>The body \<open>{"error":"..."}\<close> of an error answer.\<close>

definition error_body :: "string \<Rightarrow> string" where
  "error_body msg = [CHR ''{'', dquote] @ ''error'' @ [dquote, CHR '':'', dquote] @ msg @ [dquote, CHR ''}'']"

subsection \<open>CORS\<close>

fun some_origin :: "string \<Rightarrow> string list \<Rightarrow> bool" where
  "some_origin origin [] = False"
| "some_origin origin (a # as) = (if a = ''*'' then True else if a = origin then True else some_origin origin as)"

definition originAllowed :: "string \<Rightarrow> string list \<Rightarrow> bool" where
  "originAllowed origin allowed = (if origin = [] then False else some_origin origin allowed)"

definition cors_headers :: "string list \<Rightarrow> request \<Rightarrow> response \<Rightarrow> response" where
  "cors_headers allowed r rs =
     (let origin = rq_header r ''Origin'' in
      if originAllowed origin allowed then
        header_set ''Access-Control-Allow-Credentials'' ''true''
          (header_set ''Access-Control-Allow-Headers'' ''Content-Type, Authorization''
            (header_set ''Access-Control-Allow-Methods'' ''GET, POST, OPTIONS''
              (header_set ''Access-Control-Allow-Origin'' origin rs)))
      else rs)"

definition corsMiddleware :: "string list \<Rightarrow> 'w handler \<Rightarrow> 'w handler" where
  "corsMiddleware allowed nxt r = do {
     _ \<leftarrow> respond (cors_headers allowed r);
     (if rq_method r = ''OPTIONS'' then do {
        _ \<leftarrow> respond (write_header StatusOK);
        State_Monad.return Served
      } else nxt r)
   }"

lemma some_origin_iff: "some_origin origin allowed \<longleftrightarrow> ''*'' \<in> set allowed \<or> origin \<in> set allowed"
  by (induction allowed) auto

subsection \<open>The API key\<close>

definition apiKeyMiddleware :: "string \<Rightarrow> 'w handler \<Rightarrow> 'w handler" where
  "apiKeyMiddleware apiKey nxt =
     (if apiKey = [] then nxt
      else (\<lambda>r. let auth = rq_header r ''Authorization'' in
        if \<not> has_prefix auth ''Bearer '' \<or> trim_prefix auth ''Bearer '' \<noteq> apiKey then do {
          _ \<leftarrow> respond (reject_json StatusUnauthorized (error_body ''Invalid or missing API key''));
          State_Monad.return Served
        } else nxt r))"

lemma bearer_iff: "has_prefix auth p \<and> trim_prefix auth p = k \<longleftrightarrow> auth = p @ k"
  by (auto simp: has_prefix_iff)

subsection \<open>Panics\<close>

definition panicRecoveryMiddleware :: "'w handler \<Rightarrow> 'w handler" where
  "panicRecoveryMiddleware nxt r = do {
     res \<leftarrow> nxt r;
     (case res of
        Served \<Rightarrow> State_Monad.return Served
      | HandlerPanicked \<Rightarrow> do {
          _ \<leftarrow> respond (http_error (error_body ''Internal server error'') StatusInternalServerError);
          State_Monad.return Served
        })
   }"

subsection \<open>The rate limit\<close>

definition client_ip :: "request \<Rightarrow> string" where
  "client_ip r =
     (let forwarded = rq_header r ''X-Forwarded-For'' in
      if forwarded \<noteq> [] then split_on (CHR '','') forwarded ! 0 else rq_remote r)"

definition limiter_allow :: "'w runtime \<Rightarrow> string \<Rightarrow> ('w http, bool) state" where
  "limiter_allow rt ip = State (\<lambda>h.
     case run_state (allow rt (hx_limiter h) ip) (hx_world h) of
       ((ok, rl), w) \<Rightarrow> (ok, h\<lparr>hx_limiter := rl, hx_world := w\<rparr>))"

definition rateLimitMiddleware :: "'w runtime \<Rightarrow> 'w handler \<Rightarrow> 'w handler" where
  "rateLimitMiddleware rt nxt r = do {
     ok \<leftarrow> limiter_allow rt (client_ip r);
     (if \<not> ok then do {
        _ \<leftarrow> respond (reject_json StatusTooManyRequests (error_body ''Rate limit exceeded''));
        State_Monad.return Served
      } else nxt r)
   }"

subsection \<open>The guards\<close>

definition cors_prepare :: "string list \<Rightarrow> request \<Rightarrow> 'w http \<Rightarrow> 'w http" where
  "cors_prepare allowed r h = h\<lparr>hx_response := cors_headers allowed r (hx_response h)\<rparr>"

definition cors_answer :: "string list \<Rightarrow> request \<Rightarrow> 'w http \<Rightarrow> 'w http" where
  "cors_answer allowed r h = h\<lparr>hx_response := write_header StatusOK (cors_headers allowed r (hx_response h))\<rparr>"

interpretation cors: guard "corsMiddleware allowed" "\<lambda>r h. rq_method r \<noteq> ''OPTIONS''" "cors_prepare allowed" "cors_answer allowed"
  for allowed
  by unfold_locales (simp_all add: corsMiddleware_def cors_prepare_def cors_answer_def)

definition key_ok :: "string \<Rightarrow> request \<Rightarrow> bool" where
  "key_ok apiKey r \<longleftrightarrow> apiKey = [] \<or> rq_header r ''Authorization'' = ''Bearer '' @ apiKey"

definition key_answer :: "request \<Rightarrow> 'w http \<Rightarrow> 'w http" where
  "key_answer r h = h\<lparr>hx_response := reject_json StatusUnauthorized (error_body ''Invalid or missing API key'') (hx_response h)\<rparr>"

interpretation api_key: guard "apiKeyMiddleware apiKey" "\<lambda>r h. key_ok apiKey r" "\<lambda>r h. h" key_answer
  for apiKey
  using bearer_iff [of _ "''Bearer ''"]
  by unfold_locales (auto simp: apiKeyMiddleware_def key_ok_def key_answer_def Let_def)

definition within_rate :: "'w runtime \<Rightarrow> request \<Rightarrow> 'w http \<Rightarrow> bool" where
  "within_rate rt r h = fst (run_state (limiter_allow rt (client_ip r)) h)"

definition rate_counted :: "'w runtime \<Rightarrow> request \<Rightarrow> 'w http \<Rightarrow> 'w http" where
  "rate_counted rt r h = snd (run_state (limiter_allow rt (client_ip r)) h)"

definition rate_answer :: "'w runtime \<Rightarrow> request \<Rightarrow> 'w http \<Rightarrow> 'w http" where
  "rate_answer rt r h = (let h' = rate_counted rt r h in
     h'\<lparr>hx_response := reject_json StatusTooManyRequests (error_body ''Rate limit exceeded'') (hx_response h')\<rparr>)"

interpretation rate_limit: guard "rateLimitMiddleware rt" "within_rate rt" "rate_counted rt" "rate_answer rt"
  for rt
  by unfold_locales
     (simp_all add: rateLimitMiddleware_def within_rate_def rate_counted_def rate_answer_def Let_def split_def)

interpretation front: guard_chain "corsMiddleware allowed" "rateLimitMiddleware rt" "\<lambda>r h. rq_method r \<noteq> ''OPTIONS''"
    "within_rate rt" "cors_prepare allowed" "rate_counted rt" "cors_answer allowed" "rate_answer rt"
  for allowed rt
  by unfold_locales

end
