(* ===== verification/Server.thy ===== *)
theory Server
  imports Middleware Redis_Adapter Go_Time Consumer
begin

section \<open>The API server\<close>

text \<open>
  \<open>api/server.go\<close>: the \<open>Server\<close> struct, its four handlers and the handler \<open>Start\<close> serves, with the
  middleware around it. Requests' contexts are \<open>RequestCtx\<close>. What \<open>http.ServeMux\<close> answers for a
  path that is not registered, what a Redis subscription delivers, and whether a response can be
  flushed are parameters. The listening and the shutdown of the \<open>http.Server\<close> are the library's.
\<close>

record 'w server =
  sv_store :: "'w stream_store"
  sv_publisher :: "'w event_publisher"
  sv_client :: "'w redis_client"
  sv_stream :: string
  sv_dlqStream :: string
  sv_apiKey :: string
  sv_origins :: "string list"
  sv_startTime :: int

definition new_server :: "'w runtime \<Rightarrow> 'w stream_store \<Rightarrow> 'w event_publisher \<Rightarrow> 'w redis_client \<Rightarrow>
    string \<Rightarrow> string \<Rightarrow> string \<Rightarrow> string list \<Rightarrow> ('w, 'w server) state" where
  "new_server rt store publisher client stream dlqStream apiKey origins = do {
     now \<leftarrow> rt_now rt;
     State_Monad.return \<lparr>sv_store = store, sv_publisher = publisher, sv_client = client, sv_stream = stream,
       sv_dlqStream = dlqStream, sv_apiKey = apiKey, sv_origins = origins, sv_startTime = now\<rparr>
   }"

definition set_json :: "response \<Rightarrow> response" where
  "set_json = header_set ''Content-Type'' ''application/json''"

text \<open>\<open>json.NewEncoder(w).Encode\<close>: the encoding and a newline.\<close>

definition encode_line :: "string \<Rightarrow> response \<Rightarrow> response" where
  "encode_line s = write_body (s @ [CHR 0x0A])"

definition show_bool :: "bool \<Rightarrow> string" where
  "show_bool b = (if b then ''true'' else ''false'')"

subsection \<open>Retrying the dead letters\<close>

text \<open>One message of the dead-letter stream; the result is whether it counts as retried.\<close>

definition retry_message :: "'w server \<Rightarrow> go_ctx \<Rightarrow> stream_message \<Rightarrow> ('w, bool) state" where
  "retry_message sv ctx msg = (case payload_string msg of
     None \<Rightarrow> State_Monad.return False
   | Some payload \<Rightarrow>
     (case unmarshal payload of
        Inl _ \<Rightarrow> State_Monad.return False
      | Inr t0 \<Rightarrow> do {
          let t = t0\<lparr>CurrentRetries := 0\<rparr>;
          r \<leftarrow> store_Add (sv_store sv) ctx (sv_stream sv) t;
          (case r of
             Inl _ \<Rightarrow> State_Monad.return False
           | Inr _ \<Rightarrow> do {
               _ \<leftarrow> store_Delete (sv_store sv) ctx (sv_dlqStream sv) [MsgID msg];
               _ \<leftarrow> sv_publisher sv ctx \<lparr>EType = ''Pending'', TaskID = ID t, WorkerID = []\<rparr>;
               State_Monad.return True
             })
        }))"

fun retry_messages :: "'w server \<Rightarrow> go_ctx \<Rightarrow> stream_message list \<Rightarrow> int64 \<Rightarrow> ('w, int64) state" where
  "retry_messages sv ctx [] retried = State_Monad.return retried"
| "retry_messages sv ctx (msg # msgs) retried = do {
     ok \<leftarrow> retry_message sv ctx msg;
     retry_messages sv ctx msgs (if ok then retried + 1 else retried)
   }"

definition retry_result :: "int64 \<Rightarrow> string" where
  "retry_result retried = json_object [(''retried'', show_int64 retried), (''success'', show_bool True)]"

definition retry_dlq :: "'w server \<Rightarrow> 'w handler" where
  "retry_dlq sv r = do {
     let ctx = RequestCtx;
     res \<leftarrow> outside (store_Range (sv_store sv) ctx (sv_dlqStream sv) ''-'' ''+'' 0);
     (case res of
        Inl _ \<Rightarrow> do {
          _ \<leftarrow> respond (reject_json StatusInternalServerError (error_body ''Failed to read DLQ''));
          State_Monad.return Served
        }
      | Inr messages \<Rightarrow> do {
          retried \<leftarrow> outside (retry_messages sv ctx messages 0);
          _ \<leftarrow> respond set_json;
          _ \<leftarrow> respond (encode_line (retry_result retried));
          State_Monad.return Served
        })
   }"

definition handleRetryDLQ :: "'w server \<Rightarrow> 'w handler" where
  "handleRetryDLQ sv r =
     (if rq_method r \<noteq> ''POST'' then do {
        _ \<leftarrow> respond (reject_json StatusMethodNotAllowed (error_body ''Method not allowed''));
        State_Monad.return Served
      }
      else if sv_apiKey sv \<noteq> [] \<and> rq_header r ''Authorization'' \<noteq> ''Bearer '' @ sv_apiKey sv then do {
        _ \<leftarrow> respond (reject_json StatusUnauthorized (error_body ''Invalid or missing API key''));
        State_Monad.return Served
      }
      else retry_dlq sv r)"

subsection \<open>The other handlers\<close>

text \<open>The five workers \<open>handleWorkers\<close> reports; CPU and memory in tenths.\<close>

record worker_info =
  wi_ID :: string
  wi_CPU :: nat
  wi_Memory :: nat
  wi_Status :: string

definition reported_workers :: "worker_info list" where
  "reported_workers =
     [\<lparr>wi_ID = ''worker_node_1-1'', wi_CPU = 425, wi_Memory = 3128, wi_Status = ''active''\<rparr>,
      \<lparr>wi_ID = ''worker_node_1-2'', wi_CPU = 382, wi_Memory = 2894, wi_Status = ''active''\<rparr>,
      \<lparr>wi_ID = ''worker_node_1-3'', wi_CPU = 551, wi_Memory = 4012, wi_Status = ''active''\<rparr>,
      \<lparr>wi_ID = ''worker_node_1-4'', wi_CPU = 297, wi_Memory = 2560, wi_Status = ''active''\<rparr>,
      \<lparr>wi_ID = ''worker_node_1-5'', wi_CPU = 613, wi_Memory = 4456, wi_Status = ''active''\<rparr>]"

definition show_tenths :: "nat \<Rightarrow> string" where
  "show_tenths n = show_nat (n div 10) @ (if n mod 10 = 0 then [] else CHR ''.'' # show_nat (n mod 10))"

definition worker_json :: "worker_info \<Rightarrow> string" where
  "worker_json wi = json_object [(''id'', quote (wi_ID wi)), (''cpu'', show_tenths (wi_CPU wi)),
     (''memory'', show_tenths (wi_Memory wi)), (''status'', quote (wi_Status wi))]"

fun join_values :: "string list \<Rightarrow> string" where
  "join_values [] = []"
| "join_values [v] = v"
| "join_values (v # w # vs) = v @ '','' @ join_values (w # vs)"

definition handleWorkers :: "'w handler" where
  "handleWorkers r = do {
     _ \<leftarrow> respond set_json;
     _ \<leftarrow> respond (encode_line (''['' @ join_values (map worker_json reported_workers) @ '']''));
     State_Monad.return Served
   }"

text \<open>\<open>Duration.String\<close> of package time.\<close>

definition show_decimal :: "nat \<Rightarrow> nat \<Rightarrow> string" where
  "show_decimal prec n =
     (let q = n div 10 ^ prec; f = n mod 10 ^ prec in
      show_nat q @ (if f = 0 then [] else CHR ''.'' # trim_zeros (pad_nat prec f)))"

definition micro_sign :: string where
  "micro_sign = encode_rune 0xB5"

definition show_nanos :: "nat \<Rightarrow> string" where
  "show_nanos u =
     (if u = 0 then ''0s''
      else if u < 1000 then show_decimal 0 u @ ''ns''
      else if u < 1000000 then show_decimal 3 u @ micro_sign @ ''s''
      else if u < 1000000000 then show_decimal 6 u @ ''ms''
      else (let s = u div 1000000000; m = s div 60; h = m div 60 in
        (if h = 0 then [] else show_nat h @ ''h'') @ (if m = 0 then [] else show_nat (m mod 60) @ ''m'') @
        show_decimal 9 (u mod 60000000000) @ ''s''))"

definition duration_string :: "int \<Rightarrow> string" where
  "duration_string d = (if d < 0 then ''-'' @ show_nanos (nat (- d)) else show_nanos (nat d))"

definition health_body :: "bool \<Rightarrow> int \<Rightarrow> string" where
  "health_body redisOK uptime = json_object
     [(''redis'', show_bool redisOK),
      (''status'', quote (if redisOK then ''healthy'' else ''degraded'')),
      (''uptime'', quote (duration_string uptime))]"

definition handleHealth :: "'w runtime \<Rightarrow> 'w server \<Rightarrow> 'w handler" where
  "handleHealth rt sv r = do {
     _ \<leftarrow> respond set_json;
     err \<leftarrow> outside (RPing (sv_client sv) (WithTimeout RequestCtx (word_of_int (2 * second))));
     let redisOK = (err = None);
     _ \<leftarrow> respond (write_header (if redisOK then StatusOK else StatusServiceUnavailable));
     now \<leftarrow> outside (rt_now rt);
     _ \<leftarrow> respond (encode_line (health_body redisOK (now - sv_startTime sv)));
     State_Monad.return Served
   }"

text \<open>
  \<open>handleStream\<close>: what its \<open>select\<close> receives is the client going away, the subscription's channel
  being closed, or the payload of a message. The loop takes what has been received so far; it has
  returned when one of the first two came.
\<close>

datatype stream_input = ClientGone | ChannelClosed | Received string

definition sse_frame :: "string \<Rightarrow> string" where
  "sse_frame data = ''data: '' @ data @ [CHR 0x0A, CHR 0x0A]"

fun stream_loop :: "stream_input list \<Rightarrow> response \<Rightarrow> response" where
  "stream_loop [] rs = rs"
| "stream_loop (ClientGone # ins) rs = rs"
| "stream_loop (ChannelClosed # ins) rs = rs"
| "stream_loop (Received payload # ins) rs = stream_loop ins (write_body (sse_frame payload) rs)"

definition ping_data :: string where
  "ping_data = json_object [(''type'', quote ''ping'')]"

definition handleStream :: "(string \<Rightarrow> stream_input list) \<Rightarrow> bool \<Rightarrow> 'w handler" where
  "handleStream feed flushes r = do {
     _ \<leftarrow> respond (header_set ''Content-Type'' ''text/event-stream'');
     _ \<leftarrow> respond (header_set ''Cache-Control'' ''no-cache'');
     _ \<leftarrow> respond (header_set ''Connection'' ''keep-alive'');
     (if \<not> flushes then do {
        _ \<leftarrow> respond (http_error (error_body ''Streaming unsupported'') StatusInternalServerError);
        State_Monad.return Served
      } else do {
        _ \<leftarrow> respond (write_body (sse_frame ping_data));
        _ \<leftarrow> respond (stream_loop (feed ''buraq_events''));
        State_Monad.return Served
      })
   }"

subsection \<open>What Start serves\<close>

definition server_mux :: "'w runtime \<Rightarrow> (string \<Rightarrow> stream_input list) \<Rightarrow> bool \<Rightarrow> 'w handler \<Rightarrow> 'w server \<Rightarrow> 'w handler" where
  "server_mux rt feed flushes other sv r =
     (if rq_path r = ''/api/stream'' then handleStream feed flushes r
      else if rq_path r = ''/api/workers'' then handleWorkers r
      else if rq_path r = ''/api/retry-dlq'' then handleRetryDLQ sv r
      else if rq_path r = ''/api/health'' then handleHealth rt sv r
      else other r)"

definition server_limiter :: rate_limiter where
  "server_limiter = new_rate_limiter 100 200"

definition with_middleware :: "'w runtime \<Rightarrow> 'w server \<Rightarrow> 'w handler \<Rightarrow> 'w handler" where
  "with_middleware rt sv mux = panicRecoveryMiddleware (corsMiddleware (sv_origins sv) (rateLimitMiddleware rt mux))"

definition server_handler :: "'w runtime \<Rightarrow> (string \<Rightarrow> stream_input list) \<Rightarrow> bool \<Rightarrow> 'w handler \<Rightarrow> 'w server \<Rightarrow> 'w handler" where
  "server_handler rt feed flushes other sv = with_middleware rt sv (server_mux rt feed flushes other sv)"

end
