(* ===== verification/Main_Program.thy ===== *)
theory Main_Program
  imports Config Consumer_Pool Producer Redis_Adapter Server Consumer_Correct
begin

section \<open>The program\<close>

text \<open>
  \<open>main.go\<close>: the components put together from the configuration, the simulated processor and the
  mock producer. The Redis clients, the clock and the random numbers are parameters; \<open>rdb\<close> is the
  standalone client at \<open>RedisAddr\<close>, which in cluster mode is the one made for Pub/Sub. How the
  goroutines of \<open>main\<close> run together is in \<open>Program\<close>; logging is left out.
\<close>

text \<open>Redis and its publisher, the same one for the producer, the server and the consumer.\<close>

definition main_store :: "config \<Rightarrow> 'w redis_client \<Rightarrow> 'w redis_client \<Rightarrow> 'w stream_store" where
  "main_store cfg rdb clusterRdb = (if RedisCluster cfg then new_cluster_store clusterRdb else new_store rdb)"

definition main_ping :: "config \<Rightarrow> 'w redis_client \<Rightarrow> 'w redis_client \<Rightarrow> ('w, unit) state" where
  "main_ping cfg rdb clusterRdb = do {
     _ \<leftarrow> RPing (if RedisCluster cfg then clusterRdb else rdb) MainCtx;
     State_Monad.return ()
   }"

definition main_publisher :: "'w redis_client \<Rightarrow> 'w event_publisher" where
  "main_publisher rdb = publisher_Publish (new_publisher rdb ''buraq_events'')"

definition main_producer :: "config \<Rightarrow> 'w redis_client \<Rightarrow> 'w redis_client \<Rightarrow> 'w producer" where
  "main_producer cfg rdb clusterRdb = new_producer (main_store cfg rdb clusterRdb) (main_publisher rdb) (StreamName cfg)"

definition main_server :: "'w runtime \<Rightarrow> config \<Rightarrow> 'w redis_client \<Rightarrow> 'w redis_client \<Rightarrow> ('w, 'w server) state" where
  "main_server rt cfg rdb clusterRdb =
     new_server rt (main_store cfg rdb clusterRdb) (main_publisher rdb) rdb (StreamName cfg) (DLQStreamName cfg)
       (APIKey cfg) (CORSOrigins cfg)"

text \<open>The simulated work: \<open>draw\<close> is the sleep and \<open>rand.Float32() < 0.05\<close>.\<close>

definition main_processor :: "('w, bool) state \<Rightarrow> 'w task_processor" where
  "main_processor draw = TaskProcessorFunc_Process (\<lambda>ctx t. do {
     failed \<leftarrow> draw;
     State_Monad.return (t, Returned (if failed then Some ''simulated network timeout while calling external API'' else None))
   })"

definition main_consumer :: "('w, bool) state \<Rightarrow> config \<Rightarrow> 'w redis_client \<Rightarrow> 'w redis_client \<Rightarrow> 'w consumer" where
  "main_consumer draw cfg rdb clusterRdb =
     (let c = new_consumer (main_store cfg rdb clusterRdb) (main_publisher rdb) (main_processor draw)
            (StreamName cfg) (GroupName cfg) (ConsumerName cfg) (WorkerCount cfg) (FetchBatchSize cfg)
            (BlockTimeout cfg) (DLQStreamName cfg) (CfgMaxRetries cfg) in
      if \<not> RedisCluster cfg then
        with_idempotency c (idempotency_Check (new_idempotency_store rdb (word_of_int (24 * hour))))
      else c)"

text \<open>The consumer's \<open>Start\<close> as \<open>main\<close> reaches it; a \<open>StartFailed\<close> ends the process with status 1.\<close>

definition main_start :: "'w runtime \<Rightarrow> ('w, bool) state \<Rightarrow> config \<Rightarrow> 'w redis_client \<Rightarrow> 'w redis_client \<Rightarrow> 'w \<Rightarrow>
    (fetcher, 'w) start" where
  "main_start rt draw cfg rdb clusterRdb w =
     (let w1 = snd (run_state (main_ping cfg rdb clusterRdb) w);
          w2 = snd (run_state (main_server rt cfg rdb clusterRdb) w1) in
      Start (main_consumer draw cfg rdb clusterRdb) w2)"

subsection \<open>The mock producer\<close>

definition mock_payload :: string where
  "mock_payload = ''{'' @ [dquote] @ ''user_id'' @ [dquote] @ '': 123, '' @ [dquote] @ ''template'' @ [dquote] @ '': ''
     @ [dquote] @ ''welcome'' @ [dquote] @ ''}''"

definition mock_task :: "config \<Rightarrow> int64 \<Rightarrow> gotime \<Rightarrow> task" where
  "mock_task cfg taskCounter now = zero_task\<lparr>ID := ''task-'' @ show_int64 taskCounter, Type := ''email_notification'',
     Payload := Some mock_payload, CreatedAt := now, MaxRetries := CfgMaxRetries cfg, Priority := PriorityNormal\<rparr>"

text \<open>\<open>time.NewTicker\<close> panics unless the interval is positive; nothing recovers that goroutine.\<close>

definition mock_producer_crashes :: "config \<Rightarrow> bool" where
  "mock_producer_crashes cfg \<longleftrightarrow> EnableMockTasks cfg \<and> \<not> 0 < sint (MockTaskInterval cfg)"

text \<open>The loop over as many ticks as came before the shutdown; the result is the next counter.\<close>

fun mock_ticks :: "('w, gotime) state \<Rightarrow> config \<Rightarrow> 'w producer \<Rightarrow> nat \<Rightarrow> int64 \<Rightarrow> ('w, int64) state" where
  "mock_ticks utc_now cfg p 0 taskCounter = State_Monad.return taskCounter"
| "mock_ticks utc_now cfg p (Suc n) taskCounter = do {
     now \<leftarrow> utc_now;
     _ \<leftarrow> Produce p MainCtx (mock_task cfg taskCounter now);
     mock_ticks utc_now cfg p n (taskCounter + 1)
   }"

definition produceMockTasks :: "('w, gotime) state \<Rightarrow> config \<Rightarrow> 'w producer \<Rightarrow> nat \<Rightarrow> ('w, int64) state" where
  "produceMockTasks utc_now cfg p ticks = mock_ticks utc_now cfg p ticks 1"

subsection \<open>Properties\<close>

lemma ascii_utf8: "list_all (\<lambda>c. byte c < 0x80) s \<Longrightarrow> valid_utf8 s"
  by (induction s) (auto simp: rune_size_def valid_utf8.simps)

lemma show_int64_ascii: "list_all (\<lambda>c. byte c < 0x80) (show_int64 n)"
proof -
  have "list_all (\<lambda>c. byte c < 0x80) (show_nat k)" for k
    using show_nat_digits [of k] by (auto simp: list_all_iff is_digit_def)
  then show ?thesis by (simp add: show_int64_def show_int_def)
qed

lemma mock_payload_compact:
  "compact mock_payload = Some (filter (\<lambda>c. c \<noteq> CHR '' '') mock_payload) \<and> depth (BeginValue, []) mock_payload = 1"
  by code_simp

lemma mock_task_json: "json_time now \<Longrightarrow> json_task (mock_task cfg n now)"
  using mock_payload_compact
  by (auto simp: json_task_def mock_task_def PriorityNormal_def max_nesting_depth_def show_int64_ascii intro!: ascii_utf8)

lemma mock_task_key [simp]: "IdempotencyKey (mock_task cfg n now) = []"
  by (simp add: mock_task_def)

text \<open>A task without a key passes the idempotency gate, whatever the configuration.\<close>

lemma unkeyed_gate: "gate_trace en ctx t g dup \<Longrightarrow> IdempotencyKey t = [] \<Longrightarrow> g = [] \<and> \<not> dup"
  by (auto elim: gate_traceE)

text \<open>
  Mock tasks go through. Whatever the configuration and the collaborators, a consumer that gets
  a message with the encoding of a task of the mock producer (which for a time that JSON can carry
  never fails) announces it as Processing and gives the processor that task, its payload compacted,
  exactly once; it is never taken for a duplicate.
\<close>

lemma mock_tasks_processed:
  assumes "json_time now"
  shows "\<exists>data. marshal (mock_task cfg n now) = Inr data \<and>
    (\<exists>r pr cs. handler_calls rt c ctx w (text_msg m data) s =
       CPublish ctx \<lparr>EType = ''Processing'', TaskID = ''task-'' @ show_int64 n, WorkerID = worker_id c w\<rparr> pr #
       CProcess ctx ((mock_task cfg n now)\<lparr>Payload := Some (filter (\<lambda>c. c \<noteq> CHR '' '') mock_payload)\<rparr>) r # cs \<and>
       filter is_process cs = [])"
proof -
  let ?t = "mock_task cfg n now"
  obtain data where data: "marshal ?t = Inr data" "unmarshal data = Inr (normal_task ?t)"
    using unmarshal_marshal [OF mock_task_json [OF assms]] by blast
  have t: "normal_task ?t = ?t\<lparr>Payload := Some (filter (\<lambda>c. c \<noteq> CHR '' '') mock_payload)\<rparr>"
    using mock_payload_compact by (simp add: normal_task_def marshal_payload_def mock_task_def)
  have d: "decoded (text_msg m data) = Some (normal_task ?t)" by (simp add: decoded_def data(2))
  have k: "IdempotencyKey (normal_task ?t) = []" "ID (normal_task ?t) = ''task-'' @ show_int64 n" "Timeout (normal_task ?t) = None"
    by (simp_all add: normal_task_def mock_task_def zero_task_def)
  obtain ft where "message_trace c ctx w (text_msg m data) (handler_calls rt c ctx w (text_msg m data) s) ft"
    by (rule handler_trace)
  then show ?thesis
  proof (cases rule: message_trace_elim)
    case (Failed t g r1 r2 t' da e f)
    have "filter is_process f = []" using Failed(3) by (cases rule: failure_trace.cases) auto
    with Failed show ?thesis using d k unkeyed_gate [OF Failed(2)] data(1) by (auto simp: t process_ctx_def)
  qed (use d k data(1) in \<open>auto simp: t process_ctx_def dest!: unkeyed_gate\<close>)
qed

text \<open>
  What the worker count does to the start. With WORKER_COUNT unset or not a number, main's
  consumer does not panic at its start, and if Redis lets it start it has five workers. With a
  number it starts only when ten times that number, at 64 bits, is not negative: for a negative
  count Start panics where it could return an error.
\<close>

lemma worker_count_at_start:
  "case main_start rt draw (Load env) rdb clusterRdb w of
     StartFailed e \<Rightarrow> True
   | StartPanicked \<Rightarrow> (\<exists>n. atoi (env ''WORKER_COUNT'') = Some n)
   | Started s \<Rightarrow> (case atoi (env ''WORKER_COUNT'') of
       None \<Rightarrow> po_workers s = replicate 5 WWaiting
     | Some n \<Rightarrow> 0 \<le> sint (n * 10))"
proof -
  let ?c = "main_consumer draw (Load env) rdb clusterRdb"
  have atoi_Nil: "atoi [] = None" by (simp add: atoi_def Let_def)
  have n: "c_workerCount ?c = (case atoi (env ''WORKER_COUNT'') of None \<Rightarrow> 5 | Some n \<Rightarrow> n)"
    by (auto simp: main_consumer_def with_idempotency_def new_consumer_def Load_def envIntOrDefault_def Let_def atoi_Nil
        split: option.split)
  show ?thesis
    unfolding main_start_def Let_def Start_def
    by (auto simp: n chan_cap_def chan_allowed_def started_pool_def split: prod.split option.split)
qed

text \<open>An interval of zero is accepted by the configuration and crashes the process.\<close>

lemma zero_interval_crashes: "mock_producer_crashes (Load (\<lambda>k. if k = ''MOCK_TASK_INTERVAL'' then ''0s'' else []))"
proof -
  have "is_digit (CHR ''0'')" "\<not> is_digit (CHR ''s'')" "digit_val (CHR ''0'') = 0" by (simp_all add: is_digit_def digit_val_def)
  then have "parse_duration ''0s'' = Some 0"
    by (simp add: parse_duration_def parse_terms.simps parse_term_def number_char_def unit_map_def Let_def encode_rune_def)
  moreover have "parse_bool [] = None" by (simp add: parse_bool_def)
  ultimately show ?thesis
    by (simp add: mock_producer_crashes_def Load_def envBoolOrDefault_def envDurationOrDefault_def)
qed

end
