(* ===== verification/Server_Correct.thy ===== *)
theory Server_Correct
  imports Server Redis_Memory Test_Doubles
begin

section \<open>What the API server guarantees\<close>

text \<open>
  The middleware chain for any handler behind it, the guards of \<open>handleRetryDLQ\<close>, and what a retry
  of the dead letters does: for any store, call by call.
\<close>

subsection \<open>The chain of Start\<close>

text \<open>
  C31: The chain always answers, in this order. Whatever the handler behind it does, a preflight
  request is answered with 200 and not counted against the rate; another request over the rate is
  answered with 429; neither touches the handler; and every other request is handled, a panic of
  the handler being turned into the answer 500 if no status was sent yet. The chain itself never
  panics.
\<close>

theorem server_chain_answers:
  "run_state (with_middleware rt sv mux r) h =
     (let h0 = h\<lparr>hx_response := cors_headers (sv_origins sv) r (hx_response h)\<rparr>;
          (ok, h1) = run_state (limiter_allow rt (client_ip r)) h0;
          (res, h2) = run_state (mux r) h1 in
      (Served,
       if rq_method r = ''OPTIONS'' then h0\<lparr>hx_response := write_header 200 (hx_response h0)\<rparr>
       else if \<not> ok then h1\<lparr>hx_response := reject_json 429 (error_body ''Rate limit exceeded'') (hx_response h1)\<rparr>
       else if res = Served then h2
       else h2\<lparr>hx_response := http_error (error_body ''Internal server error'') 500 (hx_response h2)\<rparr>))"
  by (simp add: with_middleware_def panicRecoveryMiddleware_def front.run_guard cors_prepare_def cors_answer_def within_rate_def
      rate_counted_def rate_answer_def split_def Let_def status_defs split: served.split)

text \<open>
  C40: A client chooses its own bucket. A request is counted against the name before the first comma
  of its X-Forwarded-For header; when it carries a name the limiter has not seen, it is admitted,
  however many requests the client has made under other names or under its own address.
\<close>

theorem forwarded_name_is_admitted:
  assumes "rq_header r ''X-Forwarded-For'' = name @ rest" and "name \<noteq> []" and "CHR '','' \<notin> set name"
    and "rest = [] \<or> hd rest = CHR '',''" and "visitors (hx_limiter h) name = None" and "rq_method r \<noteq> ''OPTIONS''"
  shows "\<exists>h'. run_state (corsMiddleware origins (rateLimitMiddleware rt mux) r) h = run_state (mux r) h'"
proof -
  have "split_on (CHR '','') (name @ rest) ! 0 = name"
    using assms(2-4)
  proof (induction name)
    case (Cons c cs)
    then show ?case by (cases cs; cases rest) (auto split: list.splits)
  qed simp
  then have "client_ip r = name" using assms(1,2) by (simp add: client_ip_def Let_def)
  then have "within_rate rt r (cors_prepare origins r h)"
    using assms(5) by (simp add: within_rate_def limiter_allow_def cors_prepare_def allow_def allow_at_def split_def)
  then show ?thesis using assms(6) by (auto simp: front.run_guard)
qed

definition spoofed_request :: request where
  "spoofed_request = \<lparr>rq_method = ''GET'', rq_path = ''/api/workers'', rq_remote = ''203.0.113.7:4711'',
     rq_header = (\<lambda>k. if k = ''X-Forwarded-For'' then ''name1'' else [])\<rparr>"

definition fresh_http :: "'w \<Rightarrow> 'w http" where
  "fresh_http w = \<lparr>hx_response = new_response, hx_limiter = server_limiter, hx_world = w\<rparr>"

theorem forwarded_name_is_admitted_witness:
  "\<exists>h'. run_state (corsMiddleware [''*''] (rateLimitMiddleware mock_runtime handleWorkers) spoofed_request) (fresh_http ()) =
     run_state (handleWorkers spoofed_request) h'"
  by (rule forwarded_name_is_admitted [of _ "''name1''" "[]"])
     (simp_all add: spoofed_request_def fresh_http_def server_limiter_def new_rate_limiter_def)

text \<open>
  Which origins CORS lets in. The preflight answer carries the Access-Control headers exactly
  when the request names an origin that is on the list, or the list contains the star; they then
  echo that origin and allow credentials, with the star too.
\<close>

lemma cors_preflight:
  assumes "rq_method r = ''OPTIONS''"
  shows "let rs = hx_response (snd (run_state (corsMiddleware allowed nxt r) (fresh_http w))); origin = rq_header r ''Origin'' in
     rs_status rs = Some 200 \<and> rs_body rs = [] \<and>
     (if origin \<noteq> [] \<and> (''*'' \<in> set allowed \<or> origin \<in> set allowed) then
        rs_sent rs ''Access-Control-Allow-Origin'' = Some origin \<and>
        rs_sent rs ''Access-Control-Allow-Credentials'' = Some ''true''
      else rs_sent rs = Map.empty)"
  using assms
  by (simp add: cors.run_guard cors_answer_def cors_headers_def originAllowed_def some_origin_iff fresh_http_def
      new_response_def status_defs response_defs)

subsection \<open>The guards of the retry endpoint\<close>

text \<open>
  C32: The retry endpoint is closed to others. handleRetryDLQ answers 405 to any method but POST;
  for POST it does what apiKeyMiddleware, which the server does not use, would do around the
  unguarded retry; and a request that is not a POST with the right key leaves everything outside
  the response untouched.
\<close>

theorem retry_endpoint_guarded:
  "run_state (handleRetryDLQ sv r) h =
     (if rq_method r = ''POST'' then run_state (apiKeyMiddleware (sv_apiKey sv) (retry_dlq sv) r) h
      else (Served, h\<lparr>hx_response := reject_json 405 (error_body ''Method not allowed'') (hx_response h)\<rparr>)) \<and>
   (if rq_method r = ''POST'' \<and> key_ok (sv_apiKey sv) r then True
    else \<exists>rs. run_state (handleRetryDLQ sv r) h = (Served, h\<lparr>hx_response := rs\<rparr>))"
  by (auto simp: handleRetryDLQ_def api_key.run_guard key_ok_def key_answer_def status_defs)

subsection \<open>Retrying the dead letters\<close>

text \<open>The calls of a retry as a specification, with the number of tasks that count as retried.\<close>

inductive retry_trace :: "'w server \<Rightarrow> go_ctx \<Rightarrow> stream_message list \<Rightarrow> call list \<Rightarrow> nat \<Rightarrow> bool" for sv ctx where
  retry_done: "retry_trace sv ctx [] [] 0"
| retry_skips: "decoded m = None \<Longrightarrow> retry_trace sv ctx ms tr n \<Longrightarrow> retry_trace sv ctx (m # ms) tr n"
| retry_keeps: "decoded m = Some t \<Longrightarrow> retry_trace sv ctx ms tr n \<Longrightarrow>
    retry_trace sv ctx (m # ms) (CAdd ctx (sv_stream sv) (t\<lparr>CurrentRetries := 0\<rparr>) (Inl e) # tr) n"
| retry_moves: "decoded m = Some t \<Longrightarrow> retry_trace sv ctx ms tr n \<Longrightarrow>
    retry_trace sv ctx (m # ms)
      (CAdd ctx (sv_stream sv) (t\<lparr>CurrentRetries := 0\<rparr>) (Inr newID) # CDelete ctx (sv_dlqStream sv) [MsgID m] r1 #
       CPublish ctx \<lparr>EType = ''Pending'', TaskID = ID t, WorkerID = []\<rparr> r2 # tr) (Suc n)"

definition spy_server :: "'w spied redis_client \<Rightarrow> 'w server \<Rightarrow> 'w spied server" where
  "spy_server client sv = \<lparr>sv_store = spy_store (sv_store sv), sv_publisher = spy_publisher (sv_publisher sv),
     sv_client = client, sv_stream = sv_stream sv, sv_dlqStream = sv_dlqStream sv, sv_apiKey = sv_apiKey sv,
     sv_origins = sv_origins sv, sv_startTime = sv_startTime sv\<rparr>"

lemma spy_server_simps [simp]:
  "sv_store (spy_server client sv) = spy_store (sv_store sv)"
  "sv_publisher (spy_server client sv) = spy_publisher (sv_publisher sv)"
  "sv_stream (spy_server client sv) = sv_stream sv" "sv_dlqStream (spy_server client sv) = sv_dlqStream sv"
  "sv_apiKey (spy_server client sv) = sv_apiKey sv"
  by (simp_all add: spy_server_def)

inductive retry_one_trace :: "'w server \<Rightarrow> go_ctx \<Rightarrow> stream_message \<Rightarrow> call list \<Rightarrow> bool \<Rightarrow> bool" for sv ctx m where
  "decoded m = None \<Longrightarrow> retry_one_trace sv ctx m [] False"
| "decoded m = Some t \<Longrightarrow> retry_one_trace sv ctx m [CAdd ctx (sv_stream sv) (t\<lparr>CurrentRetries := 0\<rparr>) (Inl e)] False"
| "decoded m = Some t \<Longrightarrow> retry_one_trace sv ctx m
     [CAdd ctx (sv_stream sv) (t\<lparr>CurrentRetries := 0\<rparr>) (Inr newID), CDelete ctx (sv_dlqStream sv) [MsgID m] r1,
      CPublish ctx \<lparr>EType = ''Pending'', TaskID = ID t, WorkerID = []\<rparr> r2] True"

lemma yields_retry_message [yields_intros]:
  assumes "\<And>tr ok. retry_one_trace sv ctx m tr ok \<Longrightarrow> Q ok tr"
  shows "yields (retry_message (spy_server client sv) ctx m) Q"
  unfolding retry_message_def Let_def
  by (auto intro!: yields_intros split: option.splits sum.splits)
     (rule assms, auto simp: decoded_def intro: retry_one_trace.intros)+

lemma yields_retry_messages [yields_intros]:
  assumes "\<And>tr n. retry_trace sv ctx ms tr n \<Longrightarrow> Q (acc + of_nat n) tr"
  shows "yields (retry_messages (spy_server client sv) ctx ms acc) Q"
  using assms
proof (induction ms arbitrary: acc Q)
  case Nil
  show ?case using Nil [OF retry_done] by (auto intro!: yields_intros)
next
  case (Cons m ms)
  show ?case
    unfolding retry_messages.simps
  proof (intro yields_bind yields_retry_message Cons.IH)
    fix tr1 ok tr2 n
    assume one: "retry_one_trace sv ctx m tr1 ok" and rest: "retry_trace sv ctx ms tr2 n"
    show "Q ((if ok then acc + 1 else acc) + of_nat n) (tr1 @ tr2)"
      using one
    proof cases
      case 1
      with Cons.prems [OF retry_skips [OF 1(3) rest]] show ?thesis by simp
    next
      case (2 t e)
      with Cons.prems [OF retry_keeps [OF 2(3) rest]] show ?thesis by simp
    next
      case (3 t newID r1 r2)
      with Cons.prems [OF retry_moves [OF 3(3) rest]] show ?thesis by (simp add: add.assoc)
    qed
  qed
qed

lemma retry_run:
  assumes "rq_method r = ''POST''" and "key_ok (sv_apiKey sv) r"
  shows "case run_state (handleRetryDLQ (spy_server client sv) r) (fresh_http \<lparr>calls = [], world = w\<rparr>) of
    (res, h) \<Rightarrow> (\<exists>rng tr. calls (hx_world h) = CRange RequestCtx (sv_dlqStream sv) ''-'' ''+'' 0 rng # tr \<and>
      rng = fst (run_state (store_Range (sv_store sv) RequestCtx (sv_dlqStream sv) ''-'' ''+'' 0) w) \<and>
      (case rng of
         Inl e \<Rightarrow> tr = [] \<and> rs_status (hx_response h) = Some 500
       | Inr msgs \<Rightarrow> \<exists>n. retry_trace sv RequestCtx msgs tr n \<and> rs_status (hx_response h) = Some 200 \<and>
           rs_body (hx_response h) = json_object [(''retried'', show_int64 (of_nat n)), (''success'', ''true'')] @ [CHR 0x0A]))"
proof -
  let ?sv = "spy_server client sv"
  obtain rng w1 where rng: "run_state (store_Range (sv_store sv) RequestCtx (sv_dlqStream sv) ''-'' ''+'' 0) w = (rng, w1)"
    by fastforce
  have run: "run_state (handleRetryDLQ ?sv r) h = run_state (retry_dlq ?sv r) h" for h
    using assms by (auto simp: handleRetryDLQ_def key_ok_def)
  show ?thesis
  proof (cases rng)
    case (Inl e)
    then show ?thesis
      by (simp add: run retry_dlq_def Let_def run_spy rng fresh_http_def reject_json_def response_defs new_response_def status_defs)
  next
    case (Inr msgs)
    let ?s = "\<lparr>calls = [CRange RequestCtx (sv_dlqStream sv) ''-'' ''+'' 0 rng], world = w1\<rparr>"
    obtain n' s' where loop: "run_state (retry_messages ?sv RequestCtx msgs 0) ?s = (n', s')" by fastforce
    obtain tr where "calls s' = calls ?s @ tr" "\<exists>n. retry_trace sv RequestCtx msgs tr n \<and> n' = of_nat n"
      using yieldsD [OF yields_retry_messages loop, of "\<lambda>k tr. \<exists>n. retry_trace sv RequestCtx msgs tr n \<and> k = of_nat n"] by auto
    with loop show ?thesis
      by (auto simp: run retry_dlq_def Let_def run_spy rng Inr fresh_http_def set_json_def encode_line_def
          response_defs new_response_def status_defs retry_result_def show_bool_def)
  qed
qed

text \<open>
  C15: A retry moves what it can and loses nothing. For a POST with the right key, the handler reads
  the whole dead-letter stream; if that fails it answers 500 and does nothing else. Otherwise, in
  order, every readable task is added to the main stream once, with its retry counter reset; only
  after that Add succeeded is its message deleted and announced, and it counts as retried even when
  the deletion failed; the answer is 200 with the number of successful Adds.
\<close>

theorem retry_moves_dead_letters:
  assumes "rq_method r = ''POST''" and "key_ok (sv_apiKey sv) r"
  shows "case run_state (handleRetryDLQ (spy_server client sv) r) (fresh_http \<lparr>calls = [], world = w\<rparr>) of
    (res, h) \<Rightarrow> (\<exists>rng tr. calls (hx_world h) = CRange RequestCtx (sv_dlqStream sv) ''-'' ''+'' 0 rng # tr \<and>
      (case rng of
         Inl e \<Rightarrow> tr = [] \<and> rs_status (hx_response h) = Some 500
       | Inr msgs \<Rightarrow> \<exists>n. retry_trace sv RequestCtx msgs tr n \<and> rs_status (hx_response h) = Some 200 \<and>
           rs_body (hx_response h) = json_object [(''retried'', show_int64 (of_nat n)), (''success'', ''true'')] @ [CHR 0x0A]))"
  using retry_run [OF assms, where client = client and w = w] by (auto split: prod.splits)

definition retry_request :: "string \<Rightarrow> request" where
  "retry_request auth = \<lparr>rq_method = ''POST'', rq_path = ''/api/retry-dlq'', rq_remote = ''203.0.113.7:4711'',
     rq_header = (\<lambda>k. if k = ''Authorization'' then auth else [])\<rparr>"

definition test_server :: "'w stream_store \<Rightarrow> 'w event_publisher \<Rightarrow> 'w redis_client \<Rightarrow> 'w server" where
  "test_server store publisher client = \<lparr>sv_store = store, sv_publisher = publisher, sv_client = client,
     sv_stream = ''tasks'', sv_dlqStream = ''dlq'', sv_apiKey = ''secret'', sv_origins = [], sv_startTime = 0\<rparr>"

lemma retry_request_ok: "rq_method (retry_request ''Bearer secret'') = ''POST''"
  "key_ok (sv_apiKey (test_server store publisher client)) (retry_request ''Bearer secret'')"
  by (simp_all add: retry_request_def key_ok_def test_server_def)

definition dlq_store :: "unit stream_store" where
  "dlq_store = (mock_store None None None)\<lparr>store_Range := (\<lambda>ctx st a b n. State_Monad.return (Inr [retry_msg]))\<rparr>"

text \<open>A client that is not connected.\<close>

definition no_redis :: "'w redis_client" where
  "no_redis = \<lparr>XAdd = (\<lambda>ctx st v. State_Monad.return (Inl ''down'')), XReadGroup = (\<lambda>ctx a. State_Monad.return (Inl ''down'')),
     XAck = (\<lambda>ctx st g m. State_Monad.return (Some ''down'')), XGroupCreateMkStream = (\<lambda>ctx st g a. State_Monad.return (Some ''down'')),
     XRangeN = (\<lambda>ctx st a b n. State_Monad.return (Inl ''down'')), XDel = (\<lambda>ctx st ms. State_Monad.return (Some ''down'')),
     SetNX = (\<lambda>ctx k v d. State_Monad.return (Inl ''down'')), RPublish = (\<lambda>ctx ch m. State_Monad.return (Some ''down'')),
     RPing = (\<lambda>ctx. State_Monad.return (Some ''down''))\<rparr>"

definition dlq_server :: "unit server" where
  "dlq_server = test_server dlq_store (mock_publisher None) no_redis"

lemma dlq_calls:
  "calls (hx_world (snd (run_state (handleRetryDLQ (spy_server no_redis dlq_server) (retry_request ''Bearer secret''))
      (fresh_http \<lparr>calls = [], world = ()\<rparr>)))) =
   [CRange RequestCtx ''dlq'' ''-'' ''+'' 0 (Inr [retry_msg]),
    CAdd RequestCtx ''tasks'' (zero_task\<lparr>MaxRetries := 1\<rparr>) (Inr ''msg-''), CDelete RequestCtx ''dlq'' [''2-0''] None,
    CPublish RequestCtx \<lparr>EType = ''Pending'', TaskID = [], WorkerID = []\<rparr> None]"
proof -
  have "zero_task\<lparr>MaxRetries := 1, CurrentRetries := 0\<rparr> = zero_task\<lparr>MaxRetries := 1\<rparr>" by (simp add: zero_task_def)
  then show ?thesis
    by (simp add: handleRetryDLQ_def retry_dlq_def retry_message_def retry_request_def dlq_server_def test_server_def
        dlq_store_def mock_defs run_spy fresh_http_def Let_def retry_msg_def unmarshal_retry)
qed

theorem retry_moves_dead_letters_witness:
  "case run_state (handleRetryDLQ (spy_server no_redis dlq_server) (retry_request ''Bearer secret'')) (fresh_http \<lparr>calls = [], world = ()\<rparr>) of
    (res, h) \<Rightarrow> (\<exists>tr n. calls (hx_world h) = CRange RequestCtx ''dlq'' ''-'' ''+'' 0 (Inr [retry_msg]) # tr \<and>
       retry_trace dlq_server RequestCtx [retry_msg] tr n \<and> rs_status (hx_response h) = Some 200)"
proof -
  have "key_ok (sv_apiKey dlq_server) (retry_request ''Bearer secret'')" unfolding dlq_server_def by (rule retry_request_ok)
  moreover have "sv_dlqStream dlq_server = ''dlq''" by (simp add: dlq_server_def test_server_def)
  ultimately show ?thesis
    using retry_moves_dead_letters [OF retry_request_ok(1), of dlq_server no_redis "()"] dlq_calls
    by (auto split: prod.splits)
qed

end
