(* ===== verification/End_To_End.thy ===== *)
theory End_To_End
  imports Main_Program Server_Correct Redis_Memory
begin

section \<open>Components together\<close>

text \<open>
  What needs several components: the life of a failing task, from delivery to delivery, and the way
  of an event from the publisher to a client of the event stream, over the documented behaviour of
  Redis's Pub/Sub (locale \<open>pubsub_client\<close>).
\<close>

subsection \<open>The retries of a task\<close>

text \<open>
  \<open>redelivered c t u\<close>: a delivery of the task \<open>t\<close> leads to a delivery of the task \<open>u\<close>. Some run of
  the handler, with any collaborators in any state, on a message that decodes to \<open>t\<close>, in which the
  processor left the retry counters alone, added a task to the stream whose encoding decodes to \<open>u\<close>.
\<close>

inductive redelivered :: "'w consumer \<Rightarrow> task \<Rightarrow> task \<Rightarrow> bool" for c where
  "decoded msg = Some t \<Longrightarrow>
   CProcess y t0 (t', r) \<in> set (handler_calls rt c ctx w msg s) \<Longrightarrow>
   MaxRetries t' = MaxRetries t0 \<and> CurrentRetries t' = CurrentRetries t0 \<Longrightarrow>
   CAdd ctx' (c_stream c) v (Inr i) \<in> set (handler_calls rt c ctx w msg s) \<Longrightarrow>
   marshal v = Inr data \<Longrightarrow> unmarshal data = Inr u \<Longrightarrow>
   redelivered c t u"

lemma processes_decoded:
  assumes "CProcess y t0 p \<in> set (handler_calls rt c ctx w msg s)"
  shows "decoded msg = Some t0" and "CProcess y' t0' p' \<in> set (handler_calls rt c ctx w msg s) \<Longrightarrow> p' = p"
proof -
  obtain ft where tr: "message_trace c ctx w msg (handler_calls rt c ctx w msg s) ft" by (rule handler_trace)
  show "decoded msg = Some t0"
    using assms by (cases rule: message_trace_elim [OF tr]) (auto dest: gate_trace_calls(6) elim!: failure_trace_cases)
  assume "CProcess y' t0' p' \<in> set (handler_calls rt c ctx w msg s)"
  with assms show "p' = p"
    by (cases rule: message_trace_elim [OF tr]) (auto dest: gate_trace_calls(6) elim!: failure_trace_cases)
qed

lemma redelivered_counts:
  assumes "redelivered c t u" and "c_dlqStream c \<noteq> c_stream c"
  shows "sint (CurrentRetries u) = sint (CurrentRetries t) + 1 \<and> MaxRetries u = MaxRetries t \<and>
    sint (CurrentRetries u) \<le> sint (MaxRetries u)"
  using assms(1)
proof cases
  case (1 msg y t0 t' r rt ctx w s ctx' v i data)
  note proc = processes_decoded [OF 1(2)]
  have t0: "t0 = t" using proc(1) 1(1) by simp
  obtain y' t1 t1' e where b: "sint (CurrentRetries v) \<le> sint (MaxRetries v)"
    "CProcess y' t1 (t1', Returned (Some e)) \<in> set (handler_calls rt c ctx w msg s)"
    "MaxRetries v = MaxRetries t1'" "sint (CurrentRetries v) = sint (CurrentRetries t1') + 1"
    using requeue_bounded [OF 1(4) assms(2)] by blast
  have "t1' = t'" using proc(2) [OF b(2)] by simp
  with b t0 1(3) decoded_counters [OF 1(5,6)] show ?thesis by simp
qed

lemma redelivered_chain:
  assumes "(redelivered c ^^ n) t u" and "c_dlqStream c \<noteq> c_stream c"
  shows "sint (CurrentRetries u) = sint (CurrentRetries t) + int n \<and> MaxRetries u = MaxRetries t \<and>
    (n \<noteq> 0 \<longrightarrow> sint (CurrentRetries u) \<le> sint (MaxRetries u))"
  using assms(1)
proof (induction n arbitrary: u)
  case (Suc n)
  then obtain v where "(redelivered c ^^ n) t v" "redelivered c v u" by auto
  with Suc.IH [of v] redelivered_counts [OF _ assms(2), of v u] show ?case by auto
qed simp

text \<open>
  C17: Retrying ends, when the dead-letter stream is not the consumer's own stream and the processor
  leaves the retry counters alone. Then a task is delivered again at most as often as it had
  retries left at a delivery, through encoding, stream and decoding, whatever the collaborators do,
  whatever error the processor returns (one that is not UTF-8 changes in JSON, the counters do not),
  and however the runs are spread over workers and restarts; in particular no task comes back for
  ever. (Where DLQ_STREAM_NAME names the stream itself, a task without retries does come back for
  ever: lemma same_stream_never_ends.)
\<close>

theorem retrying_ends:
  assumes "c_dlqStream c \<noteq> c_stream c" and "(redelivered c ^^ n) t u"
  shows "int n \<le> max 0 (sint (MaxRetries t) - sint (CurrentRetries t)) \<and>
    \<not> (\<exists>f. f 0 = t \<and> (\<forall>i. redelivered c (f i) (f (Suc i))))"
proof -
  have bound: "int k \<le> max 0 (sint (MaxRetries t) - sint (CurrentRetries t))" if "(redelivered c ^^ k) t v" for k v
    using redelivered_chain [OF that assms(1)] by (cases "k = 0") auto
  moreover have False if f: "f 0 = t" "\<forall>i. redelivered c (f i) (f (Suc i))" for f
  proof -
    have "(redelivered c ^^ k) t (f k)" for k by (induction k) (use f in auto)
    then have "int k \<le> max 0 (sint (MaxRetries t) - sint (CurrentRetries t))" for k using bound by blast
    from this [of "nat (max 0 (sint (MaxRetries t) - sint (CurrentRetries t))) + 1"] show False by simp
  qed
  ultimately show ?thesis using assms(2) by blast
qed

definition failing_doubles :: "unit consumer" where
  "failing_doubles = doubles_consumer None (Some ''boom'')"

lemma sample_redelivered:
  "redelivered failing_doubles (normal_task sample_task) (normal_task sample_task\<lparr>Error := ''boom'', CurrentRetries := 1\<rparr>)"
proof -
  let ?t = "normal_task sample_task"
  let ?u = "?t\<lparr>Error := ''boom'', CurrentRetries := 1\<rparr>"
  have d: "decoded (make_stream_msg ''1-0'' sample_task) = Some ?t"
    using json_sample_task(1) by (rule decoded_make_stream_msg)
  then obtain p where p: "payload_string (make_stream_msg ''1-0'' sample_task) = Some p" "unmarshal p = Inr ?t"
    by (auto simp: decoded_def split: option.splits sum.splits)
  have t: "IdempotencyKey ?t = ''k''" "MaxRetries ?t = 1" "CurrentRetries ?t = 0"
    by (simp_all add: normal_task_def sample_task_def zero_task_def)
  have calls: "CProcess (WithTimeout Background 5) ?t (?t, Returned (Some ''boom'')) \<in>
        set (handler_calls mock_runtime failing_doubles Background 1 (make_stream_msg ''1-0'' sample_task) ())"
    "CAdd Background (c_stream failing_doubles) ?u (Inr (''msg-'' @ ID ?t)) \<in>
        set (handler_calls mock_runtime failing_doubles Background 1 (make_stream_msg ''1-0'' sample_task) ())"
    using p t
    by (auto simp: handler_defs mock_defs failing_doubles_def doubles_consumer_def sless64_def normal_task_def sample_task_def)
  have "valid_utf8 ''boom''" by code_simp
  then have json: "json_task ?u"
    using json_sample_task(2) sample_payloads by (simp add: json_task_def normal_task_def sample_task_def marshal_payload_def)
  moreover have "normal_task ?u = ?u"
    using sample_payloads by (simp add: normal_task_def sample_task_def marshal_payload_def)
  ultimately obtain data where "marshal ?u = Inr data" "unmarshal data = Inr ?u"
    using unmarshal_marshal [OF json] by auto
  with redelivered.intros [OF d calls(1) _ calls(2)] show ?thesis by simp
qed

theorem retrying_ends_witness:
  "redelivered failing_doubles (normal_task sample_task) (normal_task sample_task\<lparr>Error := ''boom'', CurrentRetries := 1\<rparr>) \<and>
   int 1 \<le> max 0 (sint (MaxRetries (normal_task sample_task)) - sint (CurrentRetries (normal_task sample_task)))"
proof -
  have s: "c_dlqStream failing_doubles \<noteq> c_stream failing_doubles"
    by (simp add: failing_doubles_def doubles_consumer_def mock_defs)
  have "(redelivered failing_doubles ^^ 1) (normal_task sample_task) (normal_task sample_task\<lparr>Error := ''boom'', CurrentRetries := 1\<rparr>)"
    using sample_redelivered by (simp add: eq_OO)
  from retrying_ends [OF s this] sample_redelivered show ?thesis by blast
qed

text \<open>
  With the dead letters on the consumer's own stream, a task without retries that fails is read
  again, fails again and is written back unchanged.
\<close>

definition looping_doubles :: "unit consumer" where
  "looping_doubles = failing_doubles\<lparr>c_dlqStream := c_stream failing_doubles\<rparr>"

definition spent_task :: task where
  "spent_task = zero_task\<lparr>Payload := Some ''null'', Error := ''boom''\<rparr>"

lemma same_stream_never_ends:
  "c_dlqStream looping_doubles = c_stream looping_doubles \<and> redelivered looping_doubles spent_task spent_task"
proof
  show "c_dlqStream looping_doubles = c_stream looping_doubles" by (simp add: looping_doubles_def)
  have null: "compact ''null'' = Some ''null'' \<and> depth (BeginValue, []) ''null'' = 0 \<and> valid_utf8 ''boom'' \<and> valid_utf8 []"
    by code_simp
  then have json: "json_task spent_task" and normal: "normal_task spent_task = spent_task"
    using json_zero_time
    by (simp_all add: json_task_def normal_task_def spent_task_def zero_task_def marshal_payload_def max_nesting_depth_def)
  obtain data where data: "marshal spent_task = Inr data" "unmarshal data = Inr spent_task"
    using unmarshal_marshal [OF json] normal by auto
  have t: "IdempotencyKey spent_task = []" "MaxRetries spent_task = 0" "CurrentRetries spent_task = 0" "Timeout spent_task = None"
    "spent_task\<lparr>Error := ''boom''\<rparr> = spent_task"
    by (simp_all add: spent_task_def)
  have d: "decoded (text_msg ''1-0'' data) = Some spent_task" by (simp add: decoded_def data(2))
  have calls: "CProcess Background spent_task (spent_task, Returned (Some ''boom'')) \<in>
        set (handler_calls mock_runtime looping_doubles Background 1 (text_msg ''1-0'' data) ())"
    "CAdd Background (c_stream looping_doubles) spent_task (Inr (''msg-'' @ ID spent_task)) \<in>
        set (handler_calls mock_runtime looping_doubles Background 1 (text_msg ''1-0'' data) ())"
    using data(2) t
    by (auto simp: handler_defs mock_defs looping_doubles_def failing_doubles_def doubles_consumer_def sless64_def)
  show "redelivered looping_doubles spent_task spent_task"
    using redelivered.intros [OF d calls(1) _ calls(2) data] by simp
qed

subsection \<open>Events on their way to a client\<close>










subsection \<open>Pub/Sub\<close>








end
