(* ===== verification/Server_Run.thy ===== *)
theory Server_Run
  imports Transitions Prelude
begin

section \<open>The life of the API server\<close>

text \<open>
  \<open>api/server.go\<close>: \<open>Start\<close> once its handler is built: the goroutine that listens, the channel
  \<open>errCh\<close> it reports to, and the \<open>select\<close> on the context and that channel. What \<open>net/http\<close> does is
  left open where its documentation does: \<open>ListenAndServe\<close> may fail at any time, and returns
  \<open>ErrServerClosed\<close> once \<open>Shutdown\<close> was called; \<open>Shutdown\<close> returns, within the deadline of ten
  seconds it is given, nil or an error.
\<close>

datatype api_main = ASelecting | AShutting | AReturned "error option"

record api_run =
  ar_main :: api_main
  ar_listening :: bool
  ar_errCh :: "error list"
  ar_closed :: bool
  ar_cancelled :: bool

definition api_init :: "api_run \<Rightarrow> bool" where
  "api_init s \<longleftrightarrow> (\<exists>cancelled. s = \<lparr>ar_main = ASelecting, ar_listening = True, ar_errCh = [], ar_closed = False,
     ar_cancelled = cancelled\<rparr>)"

text \<open>The listening goroutine.\<close>

inductive listen_step :: "api_run \<Rightarrow> api_run \<Rightarrow> bool" where
  listen_fails: "ar_listening s \<Longrightarrow>
    listen_step s (s\<lparr>ar_listening := False, ar_errCh := ar_errCh s @ [err], ar_closed := True\<rparr>)"
| listen_closed: "ar_listening s \<Longrightarrow> ar_main s \<noteq> ASelecting \<Longrightarrow>
    listen_step s (s\<lparr>ar_listening := False, ar_closed := True\<rparr>)"

text \<open>The \<open>select\<close>: both cases may be ready; a receive from the closed, empty channel gives nil.\<close>

inductive main_step :: "api_run \<Rightarrow> api_run \<Rightarrow> bool" where
  main_cancelled: "ar_main s = ASelecting \<Longrightarrow> ar_cancelled s \<Longrightarrow> main_step s (s\<lparr>ar_main := AShutting\<rparr>)"
| main_error: "ar_main s = ASelecting \<Longrightarrow> ar_errCh s = err # errs \<Longrightarrow>
    main_step s (s\<lparr>ar_main := AReturned (Some err), ar_errCh := errs\<rparr>)"
| main_closed: "ar_main s = ASelecting \<Longrightarrow> ar_errCh s = [] \<Longrightarrow> ar_closed s \<Longrightarrow>
    main_step s (s\<lparr>ar_main := AReturned None\<rparr>)"
| main_shutdown: "ar_main s = AShutting \<Longrightarrow> main_step s (s\<lparr>ar_main := AReturned result\<rparr>)"

inductive_cases listen_stepE: "listen_step s t"
inductive_cases main_stepE: "main_step s t"

definition api_own :: "api_run \<Rightarrow> api_run \<Rightarrow> bool" where
  "api_own s t \<longleftrightarrow> listen_step s t \<or> main_step s t"

definition api_step :: "api_run \<Rightarrow> api_run \<Rightarrow> bool" where
  "api_step s t \<longleftrightarrow> api_own s t \<or> t = s\<lparr>ar_cancelled := True\<rparr>"

definition api_returned :: "api_run \<Rightarrow> bool" where
  "api_returned s \<longleftrightarrow> (case ar_main s of AReturned r \<Rightarrow> True | _ \<Rightarrow> False)"

text \<open>
  The channel never holds more than its one slot, and while \<open>Start\<close> is selecting it is closed only
  with an error in it; a return of nil, or a shutdown, means that the context was cancelled.
\<close>

definition api_inv :: "api_run \<Rightarrow> bool" where
  "api_inv s \<longleftrightarrow> length (ar_errCh s) \<le> 1 \<and> (ar_listening s \<longleftrightarrow> \<not> ar_closed s) \<and> (ar_listening s \<longrightarrow> ar_errCh s = []) \<and>
     (case ar_main s of
        ASelecting \<Rightarrow> ar_closed s \<longrightarrow> ar_errCh s \<noteq> []
      | AShutting \<Rightarrow> ar_cancelled s
      | AReturned r \<Rightarrow> r = None \<longrightarrow> ar_cancelled s)"

fun main_rank :: "api_main \<Rightarrow> nat" where
  "main_rank ASelecting = 2"
| "main_rank AShutting = 1"
| "main_rank (AReturned r) = 0"

definition api_rank :: "api_run \<Rightarrow> nat \<times> nat" where
  "api_rank s = (main_rank (ar_main s), if ar_listening s then 1 else 0)"

text \<open>The phase of the shutdown is any state in which \<open>Start\<close> has something to react to.\<close>

definition api_woken :: "api_run \<Rightarrow> bool" where
  "api_woken s \<longleftrightarrow> ar_cancelled s \<or> ar_closed s"

lemma listen_inv: "listen_step s t \<Longrightarrow> api_inv s \<Longrightarrow> api_inv t"
  by (erule listen_stepE) (cases "ar_main s"; simp add: api_inv_def)+

lemma main_inv: "main_step s t \<Longrightarrow> api_inv s \<Longrightarrow> api_inv t"
  by (erule main_stepE) (simp_all add: api_inv_def)

lemma api_own_inv: "api_own s t \<Longrightarrow> api_inv s \<Longrightarrow> api_inv t"
  using listen_inv main_inv by (auto simp: api_own_def)

interpretation api: shutdown api_init api_step api_inv api_own api_woken api_returned api_rank
proof
  fix s t
  show "api_init s \<Longrightarrow> api_inv s" by (auto simp: api_init_def api_inv_def)
  show "api_inv s \<Longrightarrow> api_step s t \<Longrightarrow> api_inv t"
    using api_own_inv [of s t] by (auto simp: api_step_def) (auto simp: api_inv_def split: api_main.splits)
  show "api_own s t \<Longrightarrow> api_step s t" by (simp add: api_step_def)
  show "api_woken s \<Longrightarrow> api_own s t \<Longrightarrow> api_woken t"
    by (auto simp: api_woken_def api_own_def elim!: listen_stepE main_stepE)
  show "api_own s t \<Longrightarrow> (api_rank t, api_rank s) \<in> less_than <*lex*> less_than"
    by (auto simp: api_rank_def api_own_def elim!: listen_stepE main_stepE)
  show "api_woken s \<Longrightarrow> api_step s t \<Longrightarrow> api_own s t \<or> api_woken t \<and> api_rank t = api_rank s"
    by (auto simp: api_woken_def api_step_def api_rank_def)
  show "api_inv s \<Longrightarrow> api_woken s \<Longrightarrow> \<not> api_returned s \<Longrightarrow> \<exists>t. api_own s t"
    unfolding api_own_def api_woken_def api_returned_def api_inv_def
    by (cases "ar_main s"; cases "ar_errCh s") (auto intro: listen_step.intros main_step.intros)
qed

text \<open>
  C29: The server stops when it should and says why. In every reachable state of Start: the listening
  goroutine never blocks on its channel; Start has returned nil only if the context was cancelled;
  and when the context is cancelled or the listener has failed, Start can always go on to its
  return, the two goroutines make only finitely many steps, and no fair run goes on without that
  return.
\<close>

theorem api_start_returns:
  assumes "reachable api_init api_step s"
  shows "length (ar_errCh s) \<le> 1 \<and> (if ar_listening s then ar_errCh s = [] else ar_closed s) \<and>
    (if ar_main s = AReturned None then ar_cancelled s else True) \<and>
    (if ar_cancelled s \<or> \<not> ar_listening s then
       (\<exists>t. api_own\<^sup>*\<^sup>* s t \<and> api_returned t) \<and> \<not> (\<exists>f. f 0 = s \<and> (\<forall>i. api_own (f i) (f (Suc i)))) \<and>
       \<not> (\<exists>f. f 0 = s \<and> endless_run api_step f \<and> fair_run api_own f \<and> (\<forall>i. \<not> api_returned (f i)))
     else True)"
proof -
  have inv: "api_inv s" by (rule api.reachable_inv) (rule assms)
  moreover have "api_woken s" if "ar_cancelled s \<or> \<not> ar_listening s"
    using that inv by (auto simp: api_woken_def api_inv_def)
  ultimately show ?thesis using api.ends [OF inv] by (auto simp: api_inv_def split: api_main.splits)
qed

definition api_started :: "bool \<Rightarrow> api_run" where
  "api_started cancelled = \<lparr>ar_main = ASelecting, ar_listening = True, ar_errCh = [], ar_closed = False, ar_cancelled = cancelled\<rparr>"

theorem api_start_returns_witness: "\<exists>t. api_own\<^sup>*\<^sup>* (api_started True) t \<and> api_returned t"
proof -
  have "reachable api_init api_step (api_started True)"
    by (rule initial) (auto simp: api_init_def api_started_def)
  from api_start_returns [OF this] show ?thesis by (simp add: api_started_def)
qed

end
