(* ===== verification/Program.thy ===== *)
theory Program
  imports Main_Program Pool_Correct Server_Run
begin

section \<open>The whole process\<close>

text \<open>
  \<open>main.go\<close> as it runs: the goroutine of \<open>main\<close>, the one that waits for a signal, the metrics
  listener, the API server with its listener, its requests and the sweeper of its rate limiter
  (\<open>newRateLimiter\<close>), the mock producer, and the consumer's pool, interleaved step by step. They
  share the outside world and the context; the pool (\<open>Consumer_Pool\<close>) and the server
  (\<open>Server_Run\<close>) see both through a view. When \<open>main\<close> returns, calls \<open>os.Exit\<close> or a goroutine
  panics unrecovered, the process is gone, with every goroutine in it.
\<close>

text \<open>What the process is linked with and runs on: the parameters of \<open>Main_Program\<close> and \<open>Server\<close>.\<close>

record 'w host =
  ho_runtime :: "'w runtime"
  ho_draw :: "('w, bool) state"
  ho_utc_now :: "('w, gotime) state"
  ho_rdb :: "'w redis_client"
  ho_clusterRdb :: "'w redis_client"
  ho_feed :: "string \<Rightarrow> stream_input list"
  ho_flushes :: bool
  ho_other :: "'w handler"

text \<open>
  \<open>main\<close> connects to Redis and starts the API server and the mock producer; starts the consumer;
  waits for it; exits. The signal goroutine waits, has received a signal, has cancelled the context.
\<close>

datatype main_state = MainConnecting | MainStarting | MainWaiting | Exited int | ProcessCrashed
datatype signal_state = SigWaiting | SigReceived | SigDone
datatype mock_state = MockOff | MockNew | MockLoop int64 | MockStopped | MockPanicked

record 'w program =
  pg_main :: main_state
  pg_cancelled :: bool
  pg_sigCh :: nat
  pg_signal :: signal_state
  pg_metrics :: bool
  pg_mock :: mock_state
  pg_server :: "'w server option"
  pg_api :: "api_run option"
  pg_limiter :: rate_limiter
  pg_pool :: "'w consumer_pool option"
  pg_world :: 'w

definition running :: "'w program \<Rightarrow> bool" where
  "running s \<longleftrightarrow> (case pg_main s of Exited code \<Rightarrow> False | ProcessCrashed \<Rightarrow> False | _ \<Rightarrow> True)"

definition pool_view :: "'w program \<Rightarrow> 'w consumer_pool \<Rightarrow> 'w consumer_pool" where
  "pool_view s p = p\<lparr>po_world := pg_world s, po_cancelled := pg_cancelled s\<rparr>"

definition api_view :: "'w program \<Rightarrow> api_run \<Rightarrow> api_run" where
  "api_view s a = a\<lparr>ar_cancelled := pg_cancelled s\<rparr>"

definition program_consumer :: "'w host \<Rightarrow> config \<Rightarrow> 'w consumer" where
  "program_consumer h cfg = main_consumer (ho_draw h) cfg (ho_rdb h) (ho_clusterRdb h)"

text \<open>The context is live, the signal channel (of one slot) empty, the first two goroutines started.\<close>

definition program_started :: "'w \<Rightarrow> 'w program" where
  "program_started w = \<lparr>pg_main = MainConnecting, pg_cancelled = False, pg_sigCh = 0, pg_signal = SigWaiting,
     pg_metrics = True, pg_mock = MockOff, pg_server = None, pg_api = None, pg_limiter = server_limiter,
     pg_pool = None, pg_world = w\<rparr>"

definition program_init :: "'w program \<Rightarrow> bool" where
  "program_init s \<longleftrightarrow> (\<exists>w. s = program_started w)"

text \<open>
  \<open>main\<close> itself, with the goroutines of the consumer it waits for and the runtime that ends the
  process after a panic. The world after a failed start is what \<open>CreateGroup\<close> left.
\<close>

definition after_create_group :: "'w host \<Rightarrow> config \<Rightarrow> 'w \<Rightarrow> 'w" where
  "after_create_group h cfg w = (let c = program_consumer h cfg in
     snd (run_state (store_CreateGroup (c_store c) MainCtx (c_stream c) (c_group c)) w))"

inductive main_moves :: "'w host \<Rightarrow> config \<Rightarrow> 'w program \<Rightarrow> 'w program \<Rightarrow> bool" for h cfg where
  main_connects: "pg_main s = MainConnecting \<Longrightarrow>
    run_state (main_ping cfg (ho_rdb h) (ho_clusterRdb h)) (pg_world s) = (u, w1) \<Longrightarrow>
    run_state (main_server (ho_runtime h) cfg (ho_rdb h) (ho_clusterRdb h)) w1 = (sv, w2) \<Longrightarrow>
    main_moves h cfg s (s\<lparr>pg_main := MainStarting, pg_server := Some sv, pg_api := Some (api_started (pg_cancelled s)),
      pg_mock := (if EnableMockTasks cfg then MockNew else MockOff), pg_world := w2\<rparr>)"
| main_starts: "pg_main s = MainStarting \<Longrightarrow> Start (program_consumer h cfg) (pg_world s) = Started p \<Longrightarrow>
    main_moves h cfg s (s\<lparr>pg_main := MainWaiting, pg_pool := Some p, pg_world := po_world p\<rparr>)"
| main_start_fails: "pg_main s = MainStarting \<Longrightarrow> Start (program_consumer h cfg) (pg_world s) = StartFailed err \<Longrightarrow>
    main_moves h cfg s (s\<lparr>pg_main := Exited 1, pg_world := after_create_group h cfg (pg_world s)\<rparr>)"
| main_start_panics: "pg_main s = MainStarting \<Longrightarrow> Start (program_consumer h cfg) (pg_world s) = StartPanicked \<Longrightarrow>
    main_moves h cfg s (s\<lparr>pg_main := ProcessCrashed, pg_world := after_create_group h cfg (pg_world s)\<rparr>)"
| consumer_moves: "pg_main s = MainWaiting \<Longrightarrow> pg_pool s = Some p \<Longrightarrow>
    own_step (fetch_step (program_consumer h cfg)) (worker_body (ho_runtime h) (program_consumer h cfg)) (pool_view s p) p' \<Longrightarrow>
    main_moves h cfg s (s\<lparr>pg_pool := Some p', pg_world := po_world p'\<rparr>)"
| main_returns: "pg_main s = MainWaiting \<Longrightarrow> pg_pool s = Some p \<Longrightarrow> all_returned (\<lambda>f. f = FReturned) p \<Longrightarrow>
    main_moves h cfg s (s\<lparr>pg_main := Exited 0\<rparr>)"
| panic_kills: "running s \<Longrightarrow> pg_mock s = MockPanicked \<Longrightarrow> main_moves h cfg s (s\<lparr>pg_main := ProcessCrashed\<rparr>)"

text \<open>The goroutine that waits for one signal and cancels the context.\<close>

inductive signal_moves :: "'w program \<Rightarrow> 'w program \<Rightarrow> bool" where
  signal_received: "running s \<Longrightarrow> pg_signal s = SigWaiting \<Longrightarrow> 0 < pg_sigCh s \<Longrightarrow>
    signal_moves s (s\<lparr>pg_signal := SigReceived, pg_sigCh := pg_sigCh s - 1\<rparr>)"
| signal_cancels: "running s \<Longrightarrow> pg_signal s = SigReceived \<Longrightarrow>
    signal_moves s (s\<lparr>pg_signal := SigDone, pg_cancelled := True\<rparr>)"

text \<open>The mock producer: its ticker, and its \<open>select\<close> on the context and the ticks.\<close>

inductive mock_moves :: "'w host \<Rightarrow> config \<Rightarrow> 'w program \<Rightarrow> 'w program \<Rightarrow> bool" for h cfg where
  mock_panics: "running s \<Longrightarrow> pg_mock s = MockNew \<Longrightarrow> \<not> 0 < sint (MockTaskInterval cfg) \<Longrightarrow>
    mock_moves h cfg s (s\<lparr>pg_mock := MockPanicked\<rparr>)"
| mock_begins: "running s \<Longrightarrow> pg_mock s = MockNew \<Longrightarrow> 0 < sint (MockTaskInterval cfg) \<Longrightarrow>
    mock_moves h cfg s (s\<lparr>pg_mock := MockLoop 1\<rparr>)"
| mock_stops: "running s \<Longrightarrow> pg_mock s = MockLoop n \<Longrightarrow> pg_cancelled s \<Longrightarrow> mock_moves h cfg s (s\<lparr>pg_mock := MockStopped\<rparr>)"
| mock_produces: "running s \<Longrightarrow> pg_mock s = MockLoop n \<Longrightarrow>
    run_state (mock_ticks (ho_utc_now h) cfg (main_producer cfg (ho_rdb h) (ho_clusterRdb h)) 1 n) (pg_world s) = (n', w') \<Longrightarrow>
    mock_moves h cfg s (s\<lparr>pg_mock := MockLoop n', pg_world := w'\<rparr>)"

text \<open>
  The API server: its two goroutines, a request served while it listens or drains, and the goroutine
  that sweeps its rate limiter for ever.
\<close>

inductive sweeper_step :: "rate_limiter \<Rightarrow> rate_limiter \<Rightarrow> bool" where
  sweeper_wakes: "sweeper_step rl (cleanup now rl)"

inductive server_moves :: "'w host \<Rightarrow> 'w program \<Rightarrow> 'w program \<Rightarrow> bool" for h where
  api_moves: "running s \<Longrightarrow> pg_api s = Some a \<Longrightarrow> api_own (api_view s a) a' \<Longrightarrow> server_moves h s (s\<lparr>pg_api := Some a'\<rparr>)"
| api_serves: "running s \<Longrightarrow> pg_server s = Some sv \<Longrightarrow> pg_api s = Some a \<Longrightarrow> ar_listening a \<or> ar_main a = AShutting \<Longrightarrow>
    run_state (server_handler (ho_runtime h) (ho_feed h) (ho_flushes h) (ho_other h) sv rq)
      \<lparr>hx_response = new_response, hx_limiter = pg_limiter s, hx_world = pg_world s\<rparr> = (r, hx) \<Longrightarrow>
    server_moves h s (s\<lparr>pg_limiter := hx_limiter hx, pg_world := hx_world hx\<rparr>)"
| limiter_swept: "running s \<Longrightarrow> pg_api s = Some a \<Longrightarrow> sweeper_step (pg_limiter s) rl \<Longrightarrow>
    server_moves h s (s\<lparr>pg_limiter := rl\<rparr>)"

text \<open>The metrics listener, whose failure is only logged.\<close>

inductive metrics_moves :: "'w program \<Rightarrow> 'w program \<Rightarrow> bool" where
  metrics_fails: "running s \<Longrightarrow> pg_metrics s \<Longrightarrow> metrics_moves s (s\<lparr>pg_metrics := False\<rparr>)"

text \<open>
  The outside: a signal, which is dropped when the channel's slot is taken, and whatever else
  happens in the world.
\<close>

inductive outside_moves :: "'w program \<Rightarrow> 'w program \<Rightarrow> bool" where
  signal_arrives: "outside_moves s (s\<lparr>pg_sigCh := 1\<rparr>)"
| world_changes: "outside_moves s (s\<lparr>pg_world := w\<rparr>)"

inductive_cases main_movesE: "main_moves h cfg s t"
inductive_cases signal_movesE: "signal_moves s t"
inductive_cases mock_movesE: "mock_moves h cfg s t"
inductive_cases server_movesE: "server_moves h s t"
inductive_cases metrics_movesE: "metrics_moves s t"
inductive_cases outside_movesE: "outside_moves s t"

definition program_step :: "'w host \<Rightarrow> config \<Rightarrow> 'w program \<Rightarrow> 'w program \<Rightarrow> bool" where
  "program_step h cfg s t \<longleftrightarrow> main_moves h cfg s t \<or> signal_moves s t \<or> mock_moves h cfg s t \<or> server_moves h s t \<or>
     metrics_moves s t \<or> outside_moves s t"

lemma program_stepI:
  "main_moves h cfg s t \<Longrightarrow> program_step h cfg s t" "signal_moves s t \<Longrightarrow> program_step h cfg s t"
  "mock_moves h cfg s t \<Longrightarrow> program_step h cfg s t" "server_moves h s t \<Longrightarrow> program_step h cfg s t"
  "metrics_moves s t \<Longrightarrow> program_step h cfg s t" "outside_moves s t \<Longrightarrow> program_step h cfg s t"
  by (simp_all add: program_step_def)

subsection \<open>The parts run as in their own models\<close>

text \<open>The environment's steps of the parts: the world changes, the context is cancelled.\<close>

lemma pool_reachable_env:
  assumes "reachable (pool_init c) (consumer_step rt c) q" and "po_cancelled q \<longrightarrow> b"
  shows "reachable (pool_init c) (consumer_step rt c) (q\<lparr>po_world := w, po_cancelled := b\<rparr>)"
proof -
  have 1: "reachable (pool_init c) (consumer_step rt c) (q\<lparr>po_world := w\<rparr>)"
    using assms(1) by (rule successor) (rule env_any, rule env_acts)
  show ?thesis
  proof (cases "b = po_cancelled q")
    case False
    then have b: "b = True" using assms(2) by blast
    have "consumer_step rt c (q\<lparr>po_world := w\<rparr>) (q\<lparr>po_world := w, po_cancelled := True\<rparr>)"
      by (rule env_any) (rule env_cancels)
    with 1 show ?thesis unfolding b by (rule successor)
  qed (use 1 in simp)
qed

lemma api_reachable_env:
  assumes "reachable api_init api_step q" and "ar_cancelled q \<longrightarrow> b"
  shows "reachable api_init api_step (q\<lparr>ar_cancelled := b\<rparr>)"
proof (cases "b = ar_cancelled q")
  case False
  then have b: "b = True" using assms(2) by blast
  have "api_step q (q\<lparr>ar_cancelled := True\<rparr>)" by (simp add: api_step_def)
  with assms(1) show ?thesis unfolding b by (rule successor)
qed (use assms in simp)

definition pool_reached :: "'w host \<Rightarrow> config \<Rightarrow> 'w program \<Rightarrow> bool" where
  "pool_reached h cfg s \<longleftrightarrow> (case pg_pool s of None \<Rightarrow> True
     | Some p \<Rightarrow> reachable (pool_init (program_consumer h cfg)) (consumer_step (ho_runtime h) (program_consumer h cfg)) (pool_view s p))"

definition api_reached :: "'w program \<Rightarrow> bool" where
  "api_reached s \<longleftrightarrow> (case pg_api s of None \<Rightarrow> True | Some a \<Rightarrow> reachable api_init api_step (api_view s a))"

text \<open>A step that leaves a part alone, and the context cancelled if it was.\<close>

lemma pool_untouched:
  assumes "pool_reached h cfg s" and "pg_pool t = pg_pool s" and "pg_cancelled s \<longrightarrow> pg_cancelled t"
  shows "pool_reached h cfg t"
proof (cases "pg_pool s")
  case (Some p)
  have "reachable (pool_init (program_consumer h cfg)) (consumer_step (ho_runtime h) (program_consumer h cfg))
      ((pool_view s p)\<lparr>po_world := pg_world t, po_cancelled := pg_cancelled t\<rparr>)"
    using assms(1,3) Some by (intro pool_reachable_env) (simp_all add: pool_reached_def pool_view_def)
  then show ?thesis using Some assms(2) by (simp add: pool_reached_def pool_view_def)
qed (use assms(2) in \<open>simp add: pool_reached_def\<close>)

lemma api_untouched:
  assumes "api_reached s" and "pg_api t = pg_api s" and "pg_cancelled s \<longrightarrow> pg_cancelled t"
  shows "api_reached t"
proof (cases "pg_api s")
  case (Some a)
  have "reachable api_init api_step ((api_view s a)\<lparr>ar_cancelled := pg_cancelled t\<rparr>)"
    using assms(1,3) Some by (intro api_reachable_env) (simp_all add: api_reached_def api_view_def)
  then show ?thesis using Some assms(2) by (simp add: api_reached_def api_view_def)
qed (use assms(2) in \<open>simp add: api_reached_def\<close>)

lemma own_keeps_context: "own_step (fetch_step c) (worker_body rt c) q q' \<Longrightarrow> po_cancelled q' = po_cancelled q"
  by (auto simp: own_step_def set_worker_def fetcher_returns_def elim!: worker_stepE fetch_stepE)

lemma api_own_keeps_context: "api_own a a' \<Longrightarrow> ar_cancelled a' = ar_cancelled a"
  by (auto simp: api_own_def elim!: listen_stepE main_stepE)

lemma started_reachable:
  assumes "Start c w = Started p"
  shows "reachable (pool_init c) (consumer_step rt c) p" and "po_cancelled p = False"
proof -
  show "reachable (pool_init c) (consumer_step rt c) p"
    by (rule initial) (use assms in \<open>auto simp: pool_init_def\<close>)
  show "po_cancelled p = False" using assms by (auto simp: Start_started started_pool_def)
qed

lemma main_parts:
  assumes "main_moves h cfg s t" and "pool_reached h cfg s" and "api_reached s"
  shows "pool_reached h cfg t \<and> api_reached t"
  using assms(1)
proof cases
  case (main_connects u w1 sv w2)
  have "reachable api_init api_step (api_started (pg_cancelled s))"
    by (rule initial) (auto simp: api_init_def api_started_def)
  then have "api_reached t" using main_connects(1) by (simp add: api_reached_def api_view_def api_started_def)
  moreover have "pool_reached h cfg t" by (rule pool_untouched [OF assms(2)]) (simp_all add: main_connects(1))
  ultimately show ?thesis by simp
next
  case (main_starts p)
  have "reachable (pool_init (program_consumer h cfg)) (consumer_step (ho_runtime h) (program_consumer h cfg))
      (p\<lparr>po_world := po_world p, po_cancelled := pg_cancelled s\<rparr>)"
    using started_reachable [OF main_starts(3)] by (intro pool_reachable_env) simp_all
  then have "pool_reached h cfg t" using main_starts(1) by (simp add: pool_reached_def pool_view_def)
  moreover have "api_reached t" by (rule api_untouched [OF assms(3)]) (simp_all add: main_starts(1))
  ultimately show ?thesis by simp
next
  case (consumer_moves p p')
  have "consumer_step (ho_runtime h) (program_consumer h cfg) (pool_view s p) p'"
    using consumer_moves(4) by (simp add: any_step_def)
  moreover have "reachable (pool_init (program_consumer h cfg)) (consumer_step (ho_runtime h) (program_consumer h cfg)) (pool_view s p)"
    using assms(2) consumer_moves(3) by (simp add: pool_reached_def)
  ultimately have "reachable (pool_init (program_consumer h cfg)) (consumer_step (ho_runtime h) (program_consumer h cfg)) p'"
    by (rule successor [rotated])
  moreover have "po_cancelled p' = pg_cancelled s" using own_keeps_context [OF consumer_moves(4)] by (simp add: pool_view_def)
  ultimately have "pool_reached h cfg t" using consumer_moves(1) by (cases p') (simp add: pool_reached_def pool_view_def)
  moreover have "api_reached t" by (rule api_untouched [OF assms(3)]) (simp_all add: consumer_moves(1))
  ultimately show ?thesis by simp
qed (auto intro: pool_untouched [OF assms(2)] api_untouched [OF assms(3)])

lemma server_parts:
  assumes "server_moves h s t" and "pool_reached h' cfg s" and "api_reached s"
  shows "pool_reached h' cfg t \<and> api_reached t"
  using assms(1)
proof cases
  case (api_moves a a')
  have "reachable api_init api_step (api_view s a)" using assms(3) api_moves(3) by (simp add: api_reached_def)
  then have "reachable api_init api_step a'"
    by (rule successor) (simp add: api_step_def api_moves(4))
  moreover have "ar_cancelled a' = pg_cancelled s" using api_own_keeps_context [OF api_moves(4)] by (simp add: api_view_def)
  ultimately have "api_reached t" using api_moves(1) by (cases a') (simp add: api_reached_def api_view_def)
  moreover have "pool_reached h' cfg t" by (rule pool_untouched [OF assms(2)]) (simp_all add: api_moves(1))
  ultimately show ?thesis by simp
qed (auto intro: pool_untouched [OF assms(2)] api_untouched [OF assms(3)])

lemma parts_step:
  assumes "program_step h cfg s t" and "pool_reached h cfg s" and "api_reached s"
  shows "pool_reached h cfg t \<and> api_reached t"
  using assms(1) unfolding program_step_def
proof (elim disjE)
  assume "main_moves h cfg s t"
  then show ?thesis using assms(2,3) by (rule main_parts)
next
  assume "server_moves h s t"
  then show ?thesis using assms(2,3) by (rule server_parts)
next
  assume "signal_moves s t"
  then show ?thesis by cases (auto intro: pool_untouched [OF assms(2)] api_untouched [OF assms(3)])
next
  assume "mock_moves h cfg s t"
  then show ?thesis by cases (auto intro: pool_untouched [OF assms(2)] api_untouched [OF assms(3)])
next
  assume "metrics_moves s t"
  then show ?thesis by cases (auto intro: pool_untouched [OF assms(2)] api_untouched [OF assms(3)])
next
  assume "outside_moves s t"
  then show ?thesis by cases (auto intro: pool_untouched [OF assms(2)] api_untouched [OF assms(3)])
qed

end
