(* ===== verification/Program_Correct.thy ===== *)
theory Program_Correct
  imports Program Redis_Memory Server_Correct
begin

section \<open>What the process guarantees\<close>

text \<open>
  The properties of the whole process: what an exit means, that a signal ends it, what its end does
  to the API server, and that its server and its consumer work on the same streams. The end of the
  process is shown in two uses of the shutdown contract: the signal goroutine cancels the context,
  and after that \<open>main\<close> and the consumer's goroutines come to the exit.
\<close>

subsection \<open>The invariant\<close>

definition exit_allowed :: "'w host \<Rightarrow> config \<Rightarrow> 'w program \<Rightarrow> bool" where
  "exit_allowed h cfg s \<longleftrightarrow> (case pg_main s of
     MainConnecting \<Rightarrow> pg_pool s = None \<and> pg_api s = None \<and> pg_mock s = MockOff
   | MainStarting \<Rightarrow> pg_pool s = None
   | MainWaiting \<Rightarrow> pg_pool s \<noteq> None
   | Exited n \<Rightarrow> n = 0 \<and> pg_cancelled s \<and> (\<exists>p. pg_pool s = Some p \<and> all_returned (\<lambda>f. f = FReturned) p) \<or>
       n = 1 \<and> pg_pool s = None
   | ProcessCrashed \<Rightarrow> mock_producer_crashes cfg \<or>
       pg_pool s = None \<and> \<not> chan_allowed (chan_cap (program_consumer h cfg)))"

definition program_inv :: "'w host \<Rightarrow> config \<Rightarrow> 'w program \<Rightarrow> bool" where
  "program_inv h cfg s \<longleftrightarrow> pool_reached h cfg s \<and> api_reached s \<and> exit_allowed h cfg s \<and>
     (pg_cancelled s \<longleftrightarrow> pg_signal s = SigDone) \<and> pg_sigCh s \<le> 1 \<and>
     (pg_mock s = MockPanicked \<longrightarrow> mock_producer_crashes cfg) \<and> (pg_mock s \<noteq> MockOff \<longrightarrow> EnableMockTasks cfg)"

lemma Start_panics: "Start c w = StartPanicked \<Longrightarrow> \<not> chan_allowed (chan_cap c)"
  by (auto simp: Start_def split: prod.splits option.splits if_splits)

lemma reached_pool_inv:
  assumes "pool_reached h cfg s" and "pg_pool s = Some p"
  shows "pool_inv in_hand (\<lambda>f. f = FReturned) (chan_cap (program_consumer h cfg))
    (nat (sint (c_workerCount (program_consumer h cfg)))) (pool_view s p)"
  by (rule pool.reachable_inv) (use assms in \<open>simp add: pool_reached_def\<close>)

lemma returned_cancelled:
  assumes "pool_reached h cfg s" and "pg_pool s = Some p" and "all_returned (\<lambda>f. f = FReturned) p"
  shows "pg_cancelled s"
  using reached_pool_inv [OF assms(1,2)] assms(3) by (auto simp: pool_inv_def pool_view_def all_returned_def)

lemma main_moves_inv:
  assumes "main_moves h cfg s t" and "program_inv h cfg s"
  shows "exit_allowed h cfg t \<and> (pg_cancelled t \<longleftrightarrow> pg_signal t = SigDone) \<and> pg_sigCh t \<le> 1 \<and>
     (pg_mock t = MockPanicked \<longrightarrow> mock_producer_crashes cfg) \<and> (pg_mock t \<noteq> MockOff \<longrightarrow> EnableMockTasks cfg)"
  using assms(1)
proof cases
  case (main_returns p)
  then show ?thesis
    using assms(2) returned_cancelled [OF _ main_returns(3,4)] by (auto simp: program_inv_def exit_allowed_def)
qed (use assms(2) in \<open>auto simp: program_inv_def exit_allowed_def dest: Start_panics\<close>)

lemma program_step_inv:
  assumes "program_step h cfg s t" and inv: "program_inv h cfg s"
  shows "program_inv h cfg t"
proof -
  have "exit_allowed h cfg t \<and> (pg_cancelled t \<longleftrightarrow> pg_signal t = SigDone) \<and> pg_sigCh t \<le> 1 \<and>
     (pg_mock t = MockPanicked \<longrightarrow> mock_producer_crashes cfg) \<and> (pg_mock t \<noteq> MockOff \<longrightarrow> EnableMockTasks cfg)"
    using assms(1) unfolding program_step_def
  proof (elim disjE)
    assume "main_moves h cfg s t"
    then show ?thesis using inv by (rule main_moves_inv)
  next
    assume "signal_moves s t"
    then show ?thesis
      using inv by cases (auto simp: program_inv_def exit_allowed_def running_def split: main_state.splits)
  next
    assume "mock_moves h cfg s t"
    then show ?thesis
      using inv
      by cases (auto simp: program_inv_def exit_allowed_def running_def mock_producer_crashes_def split: main_state.splits)
  next
    assume "server_moves h s t"
    then show ?thesis using inv by cases (auto simp: program_inv_def exit_allowed_def split: main_state.splits)
  next
    assume "metrics_moves s t"
    then show ?thesis using inv by cases (auto simp: program_inv_def exit_allowed_def split: main_state.splits)
  next
    assume "outside_moves s t"
    then show ?thesis using inv by cases (auto simp: program_inv_def exit_allowed_def split: main_state.splits)
  qed
  with parts_step [OF assms(1)] inv show ?thesis by (simp add: program_inv_def)
qed

lemma program_start_inv: "program_init s \<Longrightarrow> program_inv h cfg s"
  by (auto simp: program_init_def program_started_def program_inv_def exit_allowed_def pool_reached_def api_reached_def)

subsection \<open>From the signal to the cancelled context\<close>

definition signalled :: "'w program \<Rightarrow> bool" where
  "signalled s \<longleftrightarrow> 0 < pg_sigCh s \<or> pg_signal s \<noteq> SigWaiting"

fun signal_rank :: "signal_state \<Rightarrow> nat" where
  "signal_rank SigWaiting = 2"
| "signal_rank SigReceived = 1"
| "signal_rank SigDone = 0"

lemma other_moves_keep_signal:
  assumes "main_moves h cfg s t \<or> mock_moves h cfg s t \<or> server_moves h s t \<or> metrics_moves s t \<or> outside_moves s t"
  shows "pg_signal t = pg_signal s \<and> pg_cancelled t = pg_cancelled s \<and> pg_sigCh t \<in> {pg_sigCh s, 1}"
  using assms by (auto elim: main_movesE mock_movesE server_movesE metrics_movesE outside_movesE)

interpretation signals: shutdown program_init "program_step h cfg" "program_inv h cfg" signal_moves signalled
    "\<lambda>s. pg_cancelled s \<or> \<not> running s" "\<lambda>s. (signal_rank (pg_signal s), 0)"
  for h cfg
proof
  fix s t :: "'a program"
  show "program_init s \<Longrightarrow> program_inv h cfg s" by (rule program_start_inv)
  show "program_inv h cfg s \<Longrightarrow> program_step h cfg s t \<Longrightarrow> program_inv h cfg t" by (rule program_step_inv)
  show "signal_moves s t \<Longrightarrow> program_step h cfg s t" by (simp add: program_step_def)
  show "signal_moves s t \<Longrightarrow> signalled t" by (auto simp: signalled_def elim!: signal_movesE)
  show "signal_moves s t \<Longrightarrow> ((signal_rank (pg_signal t), 0), (signal_rank (pg_signal s), 0)) \<in> less_than <*lex*> less_than"
    by (auto elim!: signal_movesE)
  show "signalled s \<Longrightarrow> program_step h cfg s t \<Longrightarrow>
      signal_moves s t \<or> signalled t \<and> (signal_rank (pg_signal t), 0) = (signal_rank (pg_signal s), 0)"
    using other_moves_keep_signal [of h cfg s t] by (auto simp: program_step_def signalled_def)
  show "program_inv h cfg s \<Longrightarrow> signalled s \<Longrightarrow> \<not> (pg_cancelled s \<or> \<not> running s) \<Longrightarrow> \<exists>t. signal_moves s t"
    by (cases "pg_signal s") (auto simp: program_inv_def signalled_def intro: signal_moves.intros)
qed

text \<open>Only the first signal does anything: the goroutine that takes them is gone after it.\<close>

lemma later_signals_ignored: "pg_cancelled s \<Longrightarrow> program_inv h cfg s \<Longrightarrow> \<not> signal_moves s t"
  by (auto simp: program_inv_def elim!: signal_movesE)

subsection \<open>From the cancelled context to the exit\<close>

fun exit_rank :: "'w program \<Rightarrow> main_state \<Rightarrow> nat \<times> nat" where
  "exit_rank s MainConnecting = (7, 0)"
| "exit_rank s MainStarting = (6, 0)"
| "exit_rank s MainWaiting = (case pg_pool s of None \<Rightarrow> (6, 0)
     | Some p \<Rightarrow> (let r = pool_rank in_hand fetcher_rank p in (Suc (fst r), snd r)))"
| "exit_rank s _ = (0, 0)"

lemma fetcher_rank_le: "fetcher_rank f \<le> 4"
  by (cases f) simp_all

lemma pool_rank_view [simp]: "pool_rank in_hand fetcher_rank (pool_view s p) = pool_rank in_hand fetcher_rank p"
  by (simp add: pool_rank_def pool_view_def)

lemma other_moves_keep_main:
  assumes "signal_moves s t \<or> mock_moves h cfg s t \<or> server_moves h s t \<or> metrics_moves s t \<or> outside_moves s t"
  shows "pg_main t = pg_main s \<and> pg_pool t = pg_pool s \<and> (pg_cancelled s \<longrightarrow> pg_cancelled t)"
  using assms by (auto elim: signal_movesE mock_movesE server_movesE metrics_movesE outside_movesE)

lemma main_moves_rank:
  assumes "main_moves h cfg s t" and "pg_cancelled s"
  shows "(exit_rank t (pg_main t), exit_rank s (pg_main s)) \<in> less_than <*lex*> less_than"
  using assms(1)
proof cases
  case (consumer_moves p p')
  have "(pool_rank in_hand fetcher_rank p', pool_rank in_hand fetcher_rank (pool_view s p)) \<in> less_than <*lex*> less_than"
    using consumer_moves(4) by (rule pool.own_step_rank) (simp add: pool_view_def assms(2))
  then show ?thesis
    unfolding pool_rank_view using consumer_moves by (cases "pool_rank in_hand fetcher_rank p'"; cases "pool_rank in_hand fetcher_rank p") simp
next
  case (main_starts p)
  then show ?thesis using fetcher_rank_le [of "po_fetcher p"] by (simp add: pool_rank_def Let_def)
next
  case (main_returns p)
  then show ?thesis by (simp add: Let_def)
next
  case panic_kills
  then show ?thesis by (cases "pg_main s") (simp_all add: running_def Let_def split: option.splits)
qed simp_all

lemma main_progress:
  assumes "program_inv h cfg s" and "pg_cancelled s" and "running s"
  shows "\<exists>t. main_moves h cfg s t"
proof (cases "pg_main s")
  case MainConnecting
  obtain u w1 where "run_state (main_ping cfg (ho_rdb h) (ho_clusterRdb h)) (pg_world s) = (u, w1)" by (metis surj_pair)
  moreover obtain sv w2 where "run_state (main_server (ho_runtime h) cfg (ho_rdb h) (ho_clusterRdb h)) w1 = (sv, w2)" by (metis surj_pair)
  ultimately show ?thesis using MainConnecting by (blast intro: main_moves.main_connects)
next
  case MainStarting
  then show ?thesis
    by (cases "Start (program_consumer h cfg) (pg_world s)")
       (blast intro: main_moves.main_starts main_moves.main_start_fails main_moves.main_start_panics)+
next
  case MainWaiting
  then obtain p where p: "pg_pool s = Some p" using assms(1) by (auto simp: program_inv_def exit_allowed_def)
  show ?thesis
  proof (cases "all_returned (\<lambda>f. f = FReturned) p")
    case True
    with MainWaiting p show ?thesis by (blast intro: main_moves.main_returns)
  next
    case False
    have "\<exists>q. own_step (fetch_step (program_consumer h cfg)) (worker_body (ho_runtime h) (program_consumer h cfg)) (pool_view s p) q"
    proof (rule pool.own_progress)
      show "pool_inv in_hand (\<lambda>f. f = FReturned) (chan_cap (program_consumer h cfg))
          (nat (sint (c_workerCount (program_consumer h cfg)))) (pool_view s p)"
        using assms(1) p by (intro reached_pool_inv) (simp_all add: program_inv_def)
      show "po_cancelled (pool_view s p)" using assms(2) by (simp add: pool_view_def)
      show "\<not> all_returned (\<lambda>f. f = FReturned) (pool_view s p)" using False by (simp add: all_returned_def pool_view_def)
    qed
    with MainWaiting p show ?thesis by (blast intro: main_moves.consumer_moves)
  qed
qed (use assms(3) in \<open>simp_all add: running_def\<close>)

interpretation exits: shutdown program_init "program_step h cfg" "program_inv h cfg" "main_moves h cfg" pg_cancelled
    "\<lambda>s. \<not> running s" "\<lambda>s. exit_rank s (pg_main s)"
  for h cfg
proof
  fix s t :: "'a program"
  show "main_moves h cfg s t \<Longrightarrow> program_step h cfg s t" by (simp add: program_step_def)
  show "pg_cancelled s \<Longrightarrow> main_moves h cfg s t \<Longrightarrow> pg_cancelled t" by (auto elim!: main_movesE)
  show "pg_cancelled s \<Longrightarrow> main_moves h cfg s t \<Longrightarrow>
      (exit_rank t (pg_main t), exit_rank s (pg_main s)) \<in> less_than <*lex*> less_than" by (rule main_moves_rank)
  show "pg_cancelled s \<Longrightarrow> program_step h cfg s t \<Longrightarrow>
      main_moves h cfg s t \<or> pg_cancelled t \<and> exit_rank t (pg_main t) = exit_rank s (pg_main s)"
    using other_moves_keep_main [of s t h cfg] by (cases "pg_main s") (auto simp: program_step_def)
  show "program_inv h cfg s \<Longrightarrow> pg_cancelled s \<Longrightarrow> \<not> \<not> running s \<Longrightarrow> \<exists>t. main_moves h cfg s t"
    using main_progress by blast
qed

subsection \<open>A run of the process\<close>

text \<open>The in-memory Redis, a clock that stands still; a signal that came while the API server was up.\<close>

definition demo_host :: "redis_state host" where
  "demo_host = \<lparr>ho_runtime = \<lparr>rt_inc = (\<lambda>m. State_Monad.return ()), rt_observe = (\<lambda>m d. State_Monad.return ()),
       rt_now = State_Monad.return 0\<rparr>,
     ho_draw = State_Monad.return False, ho_utc_now = State_Monad.return zero_time, ho_rdb = mem_redis, ho_clusterRdb = mem_redis,
     ho_feed = (\<lambda>ch. []), ho_flushes = True, ho_other = (\<lambda>r. State_Monad.return Served)\<rparr>"

definition demo_config :: config where
  "demo_config = Load (\<lambda>k. [])"

definition demo_signalled :: "redis_state program" where
  "demo_signalled = (program_started empty_redis)\<lparr>pg_sigCh := 1\<rparr>"

abbreviation demo_server :: "redis_state server" where
  "demo_server \<equiv> fst (run_state (main_server (ho_runtime demo_host) demo_config mem_redis mem_redis) empty_redis)"

definition demo_shutting :: "redis_state program" where
  "demo_shutting = (program_started empty_redis)\<lparr>pg_main := MainStarting, pg_cancelled := True, pg_signal := SigDone,
     pg_server := Some demo_server, pg_api := Some ((api_started True)\<lparr>ar_main := AShutting\<rparr>),
     pg_mock := (if EnableMockTasks demo_config then MockNew else MockOff)\<rparr>"

lemma demo_signalled_reachable: "reachable program_init (program_step demo_host demo_config) demo_signalled"
proof -
  have "reachable program_init (program_step demo_host demo_config) (program_started empty_redis)"
    by (rule initial) (auto simp: program_init_def)
  then show ?thesis
    unfolding demo_signalled_def by (rule successor) (rule program_stepI(6), rule signal_arrives)
qed

lemma reaches: "reachable program_init (program_step h cfg) s \<Longrightarrow> program_step h cfg s t \<Longrightarrow>
    reachable program_init (program_step h cfg) t"
  by (rule successor)

lemma demo_shutting_reachable: "reachable program_init (program_step demo_host demo_config) demo_shutting"
proof -
  let ?R = "reachable program_init (program_step demo_host demo_config)"
  let ?c = "demo_signalled\<lparr>pg_signal := SigReceived, pg_sigCh := 0\<rparr>"
  let ?d = "?c\<lparr>pg_signal := SigDone, pg_cancelled := True\<rparr>"
  let ?e = "?d\<lparr>pg_main := MainStarting, pg_server := Some demo_server, pg_api := Some (api_started True),
    pg_mock := (if EnableMockTasks demo_config then MockNew else MockOff)\<rparr>"
  have ping: "run_state (main_ping demo_config (ho_rdb demo_host) (ho_clusterRdb demo_host)) w = ((), w)" for w
    by (simp add: main_ping_def demo_host_def mem_redis_def)
  have server: "run_state (main_server (ho_runtime demo_host) demo_config (ho_rdb demo_host) (ho_clusterRdb demo_host)) w =
      (demo_server, w)" for w
    by (simp add: main_server_def new_server_def demo_host_def)
  have "signal_moves demo_signalled ?c"
    using signal_received [of demo_signalled] by (simp add: demo_signalled_def program_started_def running_def)
  then have "?R ?c" by (intro reaches [OF demo_signalled_reachable] program_stepI(2))
  moreover have "signal_moves ?c ?d"
    using signal_cancels [of ?c] by (simp add: demo_signalled_def program_started_def running_def)
  ultimately have "?R ?d" by (meson reaches program_stepI(2))
  moreover have "main_moves demo_host demo_config ?d ?e"
    using main_connects [OF _ ping server, of ?d] by (simp add: demo_signalled_def program_started_def)
  ultimately have "?R ?e" by (meson reaches program_stepI(1))
  moreover have "server_moves demo_host ?e demo_shutting"
  proof -
    have "api_own (api_view ?e (api_started True)) ((api_started True)\<lparr>ar_main := AShutting\<rparr>)"
      using main_cancelled [of "api_started True"] by (simp add: api_own_def api_view_def api_started_def)
    from api_moves [OF _ _ this] show ?thesis
      by (simp add: demo_signalled_def demo_shutting_def program_started_def running_def)
  qed
  ultimately show ?thesis by (meson reaches program_stepI(4))
qed

subsection \<open>Properties\<close>

text \<open>
  C12: What an exit means. The process exits with status 0 only after a signal, with the fetcher and
  every worker of the consumer returned, and then, if no worker crashed and there is one, every
  fetched message was handled to the end or was dropped by the fetcher at the shutdown; it exits
  with status 1 only without having started the consumer; and it crashes only for a tick interval
  the mock producer cannot use, or a worker count the channel cannot be made for.
\<close>

theorem exit_means:
  assumes "reachable program_init (program_step h cfg) s"
  shows "case pg_main s of
      Exited n \<Rightarrow>
        (if n = 0 then pg_cancelled s \<and> pg_signal s = SigDone \<and>
           (\<exists>p. pg_pool s = Some p \<and> all_returned (\<lambda>f. f = FReturned) p \<and>
              (if po_crashed p = [] \<and> 0 < sint (WorkerCount cfg)
               then mset (po_fetched p) = mset (po_finished p) + mset (po_dropped p) else True))
         else n = 1 \<and> pg_pool s = None)
    | ProcessCrashed \<Rightarrow> mock_producer_crashes cfg \<or> \<not> chan_allowed (sint (WorkerCount cfg * 10))
    | _ \<Rightarrow> True"
proof -
  let ?c = "program_consumer h cfg"
  have wc: "c_workerCount ?c = WorkerCount cfg"
    by (simp add: program_consumer_def main_consumer_def new_consumer_def with_idempotency_def Let_def)
  have inv: "program_inv h cfg s" by (rule signals.reachable_inv [OF assms])
  have "mset (po_fetched p) = mset (po_finished p) + mset (po_dropped p)"
    if p: "pg_pool s = Some p" "all_returned (\<lambda>f. f = FReturned) p" "po_crashed p = []" "0 < sint (WorkerCount cfg)" for p
  proof -
    have "pool_inv in_hand (\<lambda>f. f = FReturned) (chan_cap ?c) (nat (sint (c_workerCount ?c))) (pool_view s p)"
      using inv p(1) by (intro reached_pool_inv) (simp_all add: program_inv_def)
    from pool.returned_pool [OF this] show ?thesis
      using p by (simp add: wc pool_view_def all_returned_def)
  qed
  with inv show ?thesis
    by (auto simp: program_inv_def exit_allowed_def chan_cap_def wc split: main_state.splits)
qed

theorem exit_means_witness:
  "\<exists>t. reachable program_init (program_step demo_host demo_config) t \<and>
     (case pg_main t of Exited n \<Rightarrow> if n = 0 then pg_signal t = SigDone else n = 1 \<and> pg_pool t = None | _ \<Rightarrow> False)"
proof -
  obtain t where t: "(main_moves demo_host demo_config)\<^sup>*\<^sup>* demo_shutting t" "\<not> running t"
    using exits.reaches_final [OF signals.reachable_inv [OF demo_shutting_reachable]] by (auto simp: demo_shutting_def)
  have "(program_step demo_host demo_config)\<^sup>*\<^sup>* demo_shutting t"
    using t(1) by (rule rtranclp_mono [THEN predicate2D, rotated]) (auto intro: program_stepI)
  then have r: "reachable program_init (program_step demo_host demo_config) t"
    using demo_shutting_reachable by (rule reachable_run)
  have none: "parse_bool [] = None" "atoi [] = None" "parse_duration [] = None"
    by (simp_all add: parse_bool_def atoi_def parse_duration_def Let_def)
  then have "\<not> mock_producer_crashes demo_config" "chan_allowed (sint (WorkerCount demo_config * 10))"
    by (simp_all add: mock_producer_crashes_def demo_config_def Load_def envBoolOrDefault_def envDurationOrDefault_def
        envIntOrDefault_def chan_allowed_def second_def Let_def)
  with exit_means [OF r] t(2) r show ?thesis by (auto simp: running_def split: main_state.splits if_splits intro!: exI [of _ t])
qed

text \<open>
  C9: A signal ends the process. From every reachable state in which a signal has arrived (and is in
  the channel or was taken from it), the process can come to its end; and every fair run, in which
  the signal goroutine on the one side and main with the consumer's goroutines on the other are
  scheduled again and again while they can move, comes to it, wherever main was, whatever Redis
  answers, and however the requests, the mock producer and the environment go on.
\<close>

theorem signal_ends_program:
  assumes "reachable program_init (program_step h cfg) s" and "0 < pg_sigCh s \<or> pg_signal s \<noteq> SigWaiting"
  shows "(\<exists>t. (program_step h cfg)\<^sup>*\<^sup>* s t \<and> \<not> running t) \<and>
    \<not> (\<exists>f. f 0 = s \<and> endless_run (program_step h cfg) f \<and> fair_run signal_moves f \<and> fair_run (main_moves h cfg) f \<and>
        (\<forall>i. running (f i)))"
proof
  have inv: "program_inv h cfg s" by (rule signals.reachable_inv [OF assms(1)])
  have sig: "signalled s" using assms(2) by (simp add: signalled_def)
  obtain t where t: "signal_moves\<^sup>*\<^sup>* s t" "pg_cancelled t \<or> \<not> running t" using signals.reaches_final [OF inv sig] by blast
  have run: "(program_step h cfg)\<^sup>*\<^sup>* s t"
    using t(1) by (rule rtranclp_mono [THEN predicate2D, rotated]) (auto simp: program_step_def)
  show "\<exists>t. (program_step h cfg)\<^sup>*\<^sup>* s t \<and> \<not> running t"
  proof (cases "running t")
    case True
    then obtain u where u: "(main_moves h cfg)\<^sup>*\<^sup>* t u" "\<not> running u"
      using exits.reaches_final [OF signals.run_inv [OF run inv]] t(2) by blast
    have "(program_step h cfg)\<^sup>*\<^sup>* t u"
      using u(1) by (rule rtranclp_mono [THEN predicate2D, rotated]) (auto simp: program_step_def)
    with run u(2) show ?thesis by (meson rtranclp_trans)
  qed (use run in blast)
  show "\<not> (\<exists>f. f 0 = s \<and> endless_run (program_step h cfg) f \<and> fair_run signal_moves f \<and> fair_run (main_moves h cfg) f \<and>
      (\<forall>i. running (f i)))"
  proof
    assume "\<exists>f. f 0 = s \<and> endless_run (program_step h cfg) f \<and> fair_run signal_moves f \<and> fair_run (main_moves h cfg) f \<and>
      (\<forall>i. running (f i))"
    then obtain f where f: "f 0 = s" "endless_run (program_step h cfg) f" "fair_run signal_moves f" "fair_run (main_moves h cfg) f"
      "\<forall>i. running (f i)" by blast
    obtain i where i: "pg_cancelled (f i)"
      using signals.fair_run_ends [OF f(2) _ _ f(3)] inv sig f(1,5) by blast
    have "program_inv h cfg (f i)" using signals.run_stays [OF f(2)] inv sig f(1) by blast
    then show False
      using exits.fair_run_ends [OF endless_later [OF f(2), of i] _ _ fair_later [OF f(4), of i]] i f(5) by auto
  qed
qed

theorem signal_ends_program_witness:
  "0 < pg_sigCh demo_signalled \<and> (\<exists>t. (program_step demo_host demo_config)\<^sup>*\<^sup>* demo_signalled t \<and> \<not> running t)"
  using signal_ends_program [OF demo_signalled_reachable] by (simp add: demo_signalled_def)

lemma main_moves_keep_api: "main_moves h cfg s t \<Longrightarrow> pg_main s \<noteq> MainConnecting \<Longrightarrow> pg_api t = pg_api s \<and> pg_main t \<noteq> MainConnecting"
  by (auto elim!: main_movesE)

lemma gone_is_gone: "program_step h cfg s t \<Longrightarrow> \<not> running s \<Longrightarrow> \<not> running t \<and> pg_api t = pg_api s"
  by (auto simp: program_step_def running_def elim!: main_movesE signal_movesE mock_movesE server_movesE metrics_movesE outside_movesE
      split: main_state.splits)

text \<open>
  C30: The end of the process does not wait for the API server. From every reachable state in which
  the context is cancelled and the API server was started, whatever it is doing (say, draining its
  requests in the ten seconds Start allows them), the process can come to its end without the API
  server making another step, and after that it never makes one.
\<close>

theorem api_shutdown_not_awaited:
  assumes "reachable program_init (program_step h cfg) s" and "pg_cancelled s" and "pg_api s = Some a"
  shows "\<exists>t. (main_moves h cfg)\<^sup>*\<^sup>* s t \<and> \<not> running t \<and> pg_api t = Some a \<and>
    \<not> (\<exists>u. (program_step h cfg)\<^sup>*\<^sup>* t u \<and> pg_api u \<noteq> Some a)"
proof -
  have inv: "program_inv h cfg s" by (rule signals.reachable_inv [OF assms(1)])
  then obtain t where t: "(main_moves h cfg)\<^sup>*\<^sup>* s t" "\<not> running t" using exits.reaches_final assms(2) by blast
  have "pg_main s \<noteq> MainConnecting" using inv assms(3) by (auto simp: program_inv_def exit_allowed_def)
  with t(1) have api: "pg_api t = Some a \<and> pg_main t \<noteq> MainConnecting"
    by (induction rule: rtranclp_induct) (use assms(3) main_moves_keep_api in auto)
  have gone: "\<not> running u \<and> pg_api u = pg_api t" if "(program_step h cfg)\<^sup>*\<^sup>* t u" for u
    using that
  proof (induction rule: rtranclp_induct)
    case (step u v)
    then show ?case using gone_is_gone [OF step(2)] by simp
  qed (use t(2) in simp)
  then have "\<not> (\<exists>u. (program_step h cfg)\<^sup>*\<^sup>* t u \<and> pg_api u \<noteq> Some a)" using api by auto
  with t api show ?thesis by blast
qed

theorem api_shutdown_not_awaited_witness:
  "\<exists>t. (main_moves demo_host demo_config)\<^sup>*\<^sup>* demo_shutting t \<and> \<not> running t \<and>
     pg_api t = Some ((api_started True)\<lparr>ar_main := AShutting\<rparr>)"
proof -
  have "pg_cancelled demo_shutting" "pg_api demo_shutting = Some ((api_started True)\<lparr>ar_main := AShutting\<rparr>)"
    by (simp_all add: demo_shutting_def)
  from api_shutdown_not_awaited [OF demo_shutting_reachable this] show ?thesis by blast
qed

subsection \<open>The server serves the consumer's streams\<close>

definition server_wired :: "'w host \<Rightarrow> config \<Rightarrow> 'w program \<Rightarrow> bool" where
  "server_wired h cfg s \<longleftrightarrow> (case pg_server s of None \<Rightarrow> True
     | Some sv \<Rightarrow> sv_store sv = c_store (program_consumer h cfg) \<and> sv_stream sv = c_stream (program_consumer h cfg) \<and>
         sv_dlqStream sv = c_dlqStream (program_consumer h cfg) \<and> sv_apiKey sv = APIKey cfg)"

lemma consumer_wiring:
  "c_store (program_consumer h cfg) = main_store cfg (ho_rdb h) (ho_clusterRdb h)"
  "c_stream (program_consumer h cfg) = StreamName cfg" "c_dlqStream (program_consumer h cfg) = DLQStreamName cfg"
  "c_group (program_consumer h cfg) = GroupName cfg" "c_consumer (program_consumer h cfg) = ConsumerName cfg"
  by (simp_all add: program_consumer_def main_consumer_def new_consumer_def with_idempotency_def Let_def)

interpretation wiring: safety program_init "program_step h cfg" "server_wired h cfg" for h cfg
proof
  fix s t :: "'a program"
  show "program_init s \<Longrightarrow> server_wired h cfg s" by (auto simp: program_init_def program_started_def server_wired_def)
  assume wired: "server_wired h cfg s" and "program_step h cfg s t"
  then consider "main_moves h cfg s t" | "pg_server t = pg_server s"
    unfolding program_step_def
    by (auto elim: signal_movesE mock_movesE server_movesE metrics_movesE outside_movesE)
  then show "server_wired h cfg t"
  proof cases
    case 1
    then show ?thesis
      using wired
      by cases (auto simp: server_wired_def consumer_wiring main_server_def new_server_def split: prod.splits)
  qed (use wired in \<open>simp add: server_wired_def\<close>)
qed

text \<open>The streams and tasks of the Adds in a trace, the streams and ids of the Deletes.\<close>

fun adds_of :: "call list \<Rightarrow> (string \<times> task) list" where
  "adds_of [] = []"
| "adds_of (CAdd ctx st t r # cs) = (st, t) # adds_of cs"
| "adds_of (_ # cs) = adds_of cs"

fun deletes_of :: "call list \<Rightarrow> (string \<times> string list) list" where
  "deletes_of [] = []"
| "deletes_of (CDelete ctx st ids r # cs) = (st, ids) # deletes_of cs"
| "deletes_of (_ # cs) = deletes_of cs"

lemma retry_trace_moves:
  "retry_trace sv ctx ms tr n \<Longrightarrow>
     adds_of tr = map (\<lambda>t. (sv_stream sv, t\<lparr>CurrentRetries := 0\<rparr>)) (List.map_filter decoded ms) \<and>
     set (deletes_of tr) \<subseteq> (\<lambda>m. (sv_dlqStream sv, [MsgID m])) ` set ms"
  by (induction rule: retry_trace.induct) (auto simp: List.map_filter_simps)

text \<open>
  C14: Dead letters come back to the consumer that wrote them. In every reachable state of the
  process with its API server up, whether on a standalone Redis or a cluster, an authorised retry
  reads the stream this process's consumer writes its dead letters to; when that read succeeds the
  retry adds every readable one of them, in order and with a fresh retry budget, to the stream from
  which the consumer's fetcher reads, through the same store, and deletes only messages it has read,
  from the dead-letter stream; when it fails nothing else is called.
\<close>

theorem retry_serves_consumer:
  assumes "reachable program_init (program_step h cfg) s" and "pg_server s = Some sv"
    and "rq_method r = ''POST''" and "key_ok (APIKey cfg) r"
  shows "let c = program_consumer h cfg;
       cs = calls (hx_world (snd (run_state (handleRetryDLQ (spy_server client sv) r) (fresh_http \<lparr>calls = [], world = w\<rparr>)))) in
    (case fst (run_state (store_Range (c_store c) RequestCtx (c_dlqStream c) ''-'' ''+'' 0) w) of
       Inl e \<Rightarrow> cs = [CRange RequestCtx (c_dlqStream c) ''-'' ''+'' 0 (Inl e)]
     | Inr msgs \<Rightarrow>
         adds_of cs = map (\<lambda>t. (c_stream c, t\<lparr>CurrentRetries := 0\<rparr>)) (List.map_filter decoded msgs) \<and>
         set (deletes_of cs) \<subseteq> (\<lambda>m. (c_dlqStream c, [MsgID m])) ` set msgs) \<and>
    fetch c w' = run_state (store_ReadGroup (sv_store sv) MainCtx (StreamName cfg) (GroupName cfg) (ConsumerName cfg)
      (c_fetchBatchSize c) (GoDuration (c_blockTimeout c))) w'"
proof -
  let ?c = "program_consumer h cfg"
  obtain res hx where run: "run_state (handleRetryDLQ (spy_server client sv) r) (fresh_http \<lparr>calls = [], world = w\<rparr>) = (res, hx)"
    by fastforce
  have wired: "sv_store sv = c_store ?c" "sv_stream sv = c_stream ?c" "sv_dlqStream sv = c_dlqStream ?c" "sv_apiKey sv = APIKey cfg"
    using wiring.reachable_inv [OF assms(1)] assms(2) by (simp_all add: server_wired_def)
  have "key_ok (sv_apiKey sv) r" using assms(4) wired(4) by simp
  from retry_run [OF assms(3) this, where client = client and w = w] run obtain rng tr where
    calls: "calls (hx_world hx) = CRange RequestCtx (sv_dlqStream sv) ''-'' ''+'' 0 rng # tr"
    and read: "rng = fst (run_state (store_Range (sv_store sv) RequestCtx (sv_dlqStream sv) ''-'' ''+'' 0) w)"
    and moved: "case rng of Inl e \<Rightarrow> tr = [] \<and> rs_status (hx_response hx) = Some 500
      | Inr msgs \<Rightarrow> \<exists>n. retry_trace sv RequestCtx msgs tr n \<and> rs_status (hx_response hx) = Some 200 \<and>
           rs_body (hx_response hx) = json_object [(''retried'', show_int64 (of_nat n)), (''success'', ''true'')] @ [CHR 0x0A]"
    by auto
  have rng: "case rng of Inl e \<Rightarrow> tr = [] | Inr msgs \<Rightarrow> \<exists>n. retry_trace sv RequestCtx msgs tr n"
    using moved by (cases rng) auto
  have "fetch ?c w' = run_state (store_ReadGroup (sv_store sv) MainCtx (StreamName cfg) (GroupName cfg) (ConsumerName cfg)
      (c_fetchBatchSize ?c) (GoDuration (c_blockTimeout ?c))) w'"
    by (simp add: fetch_def wired(1) consumer_wiring)
  with rng show ?thesis
    unfolding Let_def run snd_conv calls wired(3) [symmetric] wired(1) [symmetric] read [symmetric]
    by (cases rng) (auto simp: wired(2) dest!: retry_trace_moves)
qed

text \<open>The process with a dead letter in Redis, on a client that takes a count of zero for no limit.\<close>

definition dlq_host :: "redis_state host" where
  "dlq_host = demo_host\<lparr>ho_rdb := mem_redis\<lparr>XRangeN := (\<lambda>ctx st a b n. State_Monad.return
     (Inr [\<lparr>XID = ''2-0'', XValues = [''payload'' \<mapsto> GoString retry_payload]\<rparr>]))\<rparr>\<rparr>"

lemma server_up:
  fixes h :: "'w host"
  shows "\<exists>s sv. reachable program_init (program_step h cfg) s \<and> pg_server s = Some sv"
proof -
  obtain w :: 'w where True by simp
  let ?s = "program_started w"
  obtain u w1 where ping: "run_state (main_ping cfg (ho_rdb h) (ho_clusterRdb h)) (pg_world ?s) = (u, w1)" by (metis surj_pair)
  obtain sv w2 where sv: "run_state (main_server (ho_runtime h) cfg (ho_rdb h) (ho_clusterRdb h)) w1 = (sv, w2)" by (metis surj_pair)
  let ?t = "?s\<lparr>pg_main := MainStarting, pg_server := Some sv, pg_api := Some (api_started (pg_cancelled ?s)),
      pg_mock := (if EnableMockTasks cfg then MockNew else MockOff), pg_world := w2\<rparr>"
  have "main_moves h cfg ?s ?t" using ping sv by (intro main_connects) (simp_all add: program_started_def)
  then have "reachable program_init (program_step h cfg) ?t"
    by (intro reaches [OF initial [of program_init]] program_stepI(1)) (auto simp: program_init_def)
  then show ?thesis by (intro exI [of _ ?t] exI [of _ sv]) simp
qed

theorem retry_serves_consumer_witness:
  "\<exists>s sv. reachable program_init (program_step dlq_host demo_config) s \<and> pg_server s = Some sv \<and>
     adds_of (calls (hx_world (snd (run_state (handleRetryDLQ (spy_server no_redis sv) (retry_request []))
         (fresh_http \<lparr>calls = [], world = empty_redis\<rparr>))))) = [(''buraq_tasks'', zero_task\<lparr>MaxRetries := 1\<rparr>)]"
proof -
  let ?c = "program_consumer dlq_host demo_config"
  obtain s sv where s: "reachable program_init (program_step dlq_host demo_config) s" "pg_server s = Some sv"
    using server_up by blast
  have none: "parse_bool [] = None" by (simp add: parse_bool_def)
  have cfg: "\<not> RedisCluster demo_config" "StreamName demo_config = ''buraq_tasks''" "key_ok (APIKey demo_config) (retry_request [])"
    by (simp_all add: key_ok_def demo_config_def Load_def envOrDefault_def envBoolOrDefault_def none)
  have read: "fst (run_state (store_Range (c_store ?c) RequestCtx (c_dlqStream ?c) ''-'' ''+'' 0) empty_redis) = Inr [retry_msg]"
    using cfg(1)
    by (simp add: consumer_wiring main_store_def new_store_def Store_Range_def dlq_host_def demo_host_def
        to_stream_message_def retry_msg_def text_msg_def)
  have one: "List.map_filter decoded [retry_msg] = [zero_task\<lparr>MaxRetries := 1\<rparr>]"
    "zero_task\<lparr>MaxRetries := 1, CurrentRetries := 0\<rparr> = zero_task\<lparr>MaxRetries := 1\<rparr>"
    by (simp_all add: List.map_filter_simps decoded_retry zero_task_def)
  have post: "rq_method (retry_request []) = ''POST''" by (simp add: retry_request_def)
  from retry_serves_consumer [OF s post cfg(3), where client = no_redis and w = empty_redis and w' = empty_redis] read s
  show ?thesis
    by (intro exI [of _ s] exI [of _ sv]) (simp add: Let_def one decoded_retry List.map_filter_simps consumer_wiring cfg(2))
qed

end
