(* ===== verification/Typed_Store.thy ===== *)
theory Typed_Store
  imports Redis_Memory Consumer_Pool Producer
begin

section \<open>What is in the streams\<close>

text \<open>
  \<open>processMessage\<close> and \<open>handleRetryDLQ\<close> take the payload of a message out of an \<open>interface{}\<close> with
  the type assertion \<open>msg.Values["payload"].(string)\<close>, while \<open>Store.Add\<close> puts a \<open>[]byte\<close> in. This
  theory has the typing discipline that makes the two fit: the contract of a Redis client about the
  entries of the streams, from it the contract of a store that keeps them well typed, and from that
  the message handler and the pool.
\<close>

text \<open>\<open>preserves P m\<close>: the operation \<open>m\<close> keeps the invariant \<open>P\<close> of its state.\<close>

definition preserves :: "('s \<Rightarrow> bool) \<Rightarrow> ('s, 'a) state \<Rightarrow> bool" where
  "preserves P m \<longleftrightarrow> (\<forall>s. P s \<longrightarrow> P (snd (run_state m s)))"

named_theorems preserves_intros \<open>operations that keep an invariant of their state\<close>

lemma preservesD: "preserves P m \<Longrightarrow> run_state m s = (r, s') \<Longrightarrow> P s \<Longrightarrow> P s'"
  unfolding preserves_def by (metis snd_conv)

lemma preserves_return [preserves_intros]: "preserves P (State_Monad.return x)"
  by (simp add: preserves_def)

lemma preserves_bind [preserves_intros]:
  assumes "preserves P m" and "\<And>a. preserves P (f a)"
  shows "preserves P (State_Monad.bind m f)"
  unfolding preserves_def
proof (intro allI impI)
  fix s assume "P s"
  obtain a s1 where "run_state m s = (a, s1)" by fastforce
  moreover obtain b s2 where "run_state (f a) s1 = (b, s2)" by fastforce
  ultimately show "P (snd (run_state (State_Monad.bind m f) s))"
    using preservesD [OF assms(1)] preservesD [OF assms(2)] \<open>P s\<close> by fastforce
qed

text \<open>A well-typed payload is the encoding of some task, as a string.\<close>

definition typed_values :: "(string \<rightharpoonup> go_any) \<Rightarrow> bool" where
  "typed_values v \<longleftrightarrow> (\<exists>t data. marshal t = Inr data \<and> v ''payload'' = Some (GoString data))"

definition typed_message :: "stream_message \<Rightarrow> bool" where
  "typed_message m \<longleftrightarrow> (\<exists>t data. marshal t = Inr data \<and> payload_string m = Some data)"

definition typed_streams :: "('w \<Rightarrow> string \<Rightarrow> (string \<rightharpoonup> go_any) set) \<Rightarrow> 'w \<Rightarrow> bool" where
  "typed_streams entries w \<longleftrightarrow> (\<forall>st. \<forall>v\<in>entries w st. typed_values v)"

lemma typed_message_iff: "typed_message m \<longleftrightarrow> typed_values (Values m)"
  by (auto simp: typed_message_def typed_values_def payload_string_def split: option.splits go_any.splits)

subsection \<open>The contracts\<close>

text \<open>
  \<open>entries w st\<close> are the values of the entries of a stream, as the server hands them out: bytes
  come back as strings. A command adds no entries but the one \<open>XADD\<close> is for, and reads return
  entries.
\<close>

locale stream_client =
  fixes client :: "'w redis_client" and entries :: "'w \<Rightarrow> string \<Rightarrow> (string \<rightharpoonup> go_any) set"
  assumes xadd: "entries (snd (run_state (XAdd client ctx st [k \<mapsto> GoBytes b]) w)) st' \<subseteq>
      entries w st' \<union> (if st' = st then {[k \<mapsto> GoString b]} else {})"
    and xreadgroup: "run_state (XReadGroup client ctx a) w = (Inr sts, w') \<Longrightarrow> XStreams a = [st, ''>''] \<Longrightarrow>
      x \<in> set sts \<Longrightarrow> m \<in> set (XMessages x) \<Longrightarrow> XValues m \<in> entries w st"
    and xrange: "run_state (XRangeN client ctx st i j n) w = (Inr ms, w') \<Longrightarrow> m \<in> set ms \<Longrightarrow> XValues m \<in> entries w st"
    and adds_nothing:
      "entries (snd (run_state (XReadGroup client ctx a) w)) st' \<subseteq> entries w st'"
      "entries (snd (run_state (XAck client ctx st g mid) w)) st' \<subseteq> entries w st'"
      "entries (snd (run_state (XGroupCreateMkStream client ctx st g start) w)) st' \<subseteq> entries w st'"
      "entries (snd (run_state (XRangeN client ctx st i j n) w)) st' \<subseteq> entries w st'"
      "entries (snd (run_state (XDel client ctx st mids) w)) st' \<subseteq> entries w st'"
      "entries (snd (run_state (SetNX client ctx k v ttl) w)) st' \<subseteq> entries w st'"
      "entries (snd (run_state (RPublish client ctx ch d) w)) st' \<subseteq> entries w st'"
      "entries (snd (run_state (RPing client ctx) w)) st' \<subseteq> entries w st'"

text \<open>A store that keeps an invariant of the outside state, under which it reads typed messages.\<close>

locale typed_store =
  fixes store :: "'w stream_store" and T :: "'w \<Rightarrow> bool"
  assumes add_keeps: "preserves T (store_Add store ctx st t)"
    and read_keeps: "preserves T (store_ReadGroup store ctx st g c n b)"
    and ack_keeps: "preserves T (store_Ack store ctx st g mid)"
    and create_keeps: "preserves T (store_CreateGroup store ctx st g)"
    and range_keeps: "preserves T (store_Range store ctx st i j n)"
    and delete_keeps: "preserves T (store_Delete store ctx st mids)"
    and read_typed: "T w \<Longrightarrow> run_state (store_ReadGroup store ctx st g c n b) w = (Inr ms, w') \<Longrightarrow> list_all typed_message ms"
    and range_typed: "T w \<Longrightarrow> run_state (store_Range store ctx st i j n) w = (Inr ms, w') \<Longrightarrow> list_all typed_message ms"

text \<open>The collaborators of a consumer keep the invariant too.\<close>

locale typed_consumer = typed_store "c_store c" T for c :: "'w consumer" and T +
  fixes rt :: "'w runtime"
  assumes publish_keeps: "preserves T (c_publisher c ctx e)"
    and process_keeps: "preserves T (c_processor c ctx t)"
    and check_keeps: "c_idempotency c = Some check \<Longrightarrow> preserves T (check ctx key)"
    and runtime_keeps: "preserves T (rt_inc rt mt)" "preserves T (rt_observe rt mt d)" "preserves T (rt_now rt)"
begin

lemmas collaborators_keep = add_keeps ack_keeps publish_keeps process_keeps check_keeps runtime_keeps preserves_intros

lemma acknowledge_keeps: "preserves T (acknowledge c ctx m)"
  unfolding acknowledge_def by (intro collaborators_keep)

lemma publish_event_keeps: "preserves T (publish_event c ctx e)"
  unfolding publish_event_def by (intro collaborators_keep)

lemma failure_keeps: "preserves T (handle_task_failure rt c ctx t m e wid)"
  unfolding handle_task_failure_def Let_def
  by (auto intro!: collaborators_keep acknowledge_keeps publish_event_keeps split: sum.split)

lemma gate_keeps: "preserves T (is_duplicate c ctx t)"
  unfolding is_duplicate_def by (auto intro!: collaborators_keep split: option.split sum.split)

lemma process_task_keeps: "preserves T (process_task rt c ctx w m start t)"
  unfolding process_task_def Let_def
  by (auto intro!: collaborators_keep acknowledge_keeps publish_event_keeps failure_keeps split: proc_result.split option.split)

lemma handler_keeps: "preserves T (process_message rt c ctx w m)"
  unfolding process_message_def
  by (auto intro!: collaborators_keep acknowledge_keeps gate_keeps process_task_keeps split: option.split sum.split)

lemma body_keeps: "preserves T (worker_body rt c w m)"
  unfolding worker_body_def by (auto intro!: handler_keeps collaborators_keep split: outcome.split)

text \<open>A step of the pool.\<close>

lemma fetch_typed:
  assumes "fetch_step c s t" and "T (po_world s)" and "list_all typed_message (po_fetched s)"
  shows "T (po_world t) \<and> list_all typed_message (po_fetched t)"
  using assms(1)
proof cases
  case (fetch_got ms w')
  then show ?thesis
    using assms read_typed [OF assms(2)] preservesD [OF read_keeps _ assms(2)] by (auto simp: fetch_def)
next
  case (fetch_failed_cancelled err w')
  then show ?thesis using assms preservesD [OF read_keeps _ assms(2)] by (auto simp: fetch_def fetcher_returns_def)
next
  case (fetch_failed err w')
  then show ?thesis using assms preservesD [OF read_keeps _ assms(2)] by (auto simp: fetch_def)
qed (use assms in \<open>simp_all add: fetcher_returns_def\<close>)

lemma worker_typed:
  assumes "worker_step (worker_body rt c) i s t" and "T (po_world s)" and "list_all typed_message (po_fetched s)"
  shows "T (po_world t) \<and> list_all typed_message (po_fetched t)"
  using assms by cases (auto simp: set_worker_def dest: preservesD [OF body_keeps])

lemma pool_typed:
  assumes "own_step (fetch_step c) (worker_body rt c) s t" and "T (po_world s)" and "list_all typed_message (po_fetched s)"
  shows "T (po_world t) \<and> list_all typed_message (po_fetched t)"
  using assms fetch_typed worker_typed unfolding own_step_def by blast

end

text \<open>The Redis store on such a client is such a store.\<close>

context stream_client
begin

lemma adds_nothing_keeps:
  assumes "\<And>w st'. entries (snd (run_state m w)) st' \<subseteq> entries w st'"
  shows "preserves (typed_streams entries) m"
  using assms unfolding preserves_def typed_streams_def by (meson subsetD)

lemma commands_keep:
  "preserves (typed_streams entries) (XReadGroup client ctx a)"
  "preserves (typed_streams entries) (XAck client ctx st g mid)"
  "preserves (typed_streams entries) (XGroupCreateMkStream client ctx st g start)"
  "preserves (typed_streams entries) (XRangeN client ctx st i j n)"
  "preserves (typed_streams entries) (XDel client ctx st mids)"
  "preserves (typed_streams entries) (SetNX client ctx k v ttl)"
  "preserves (typed_streams entries) (RPublish client ctx ch d)"
  "preserves (typed_streams entries) (RPing client ctx)"
  by (rule adds_nothing_keeps, rule adds_nothing)+

lemma xadd_keeps:
  assumes "marshal t = Inr data"
  shows "preserves (typed_streams entries) (XAdd client ctx st [''payload'' \<mapsto> GoBytes data])"
proof -
  have "typed_values v" if "typed_streams entries w"
    and "v \<in> entries (snd (run_state (XAdd client ctx st [''payload'' \<mapsto> GoBytes data]) w)) st'" for w st' v
  proof -
    have "v \<in> entries w st' \<or> v = [''payload'' \<mapsto> GoString data]"
      using subsetD [OF xadd that(2)] by (auto split: if_splits)
    then show ?thesis using that(1) assms by (auto simp: typed_streams_def typed_values_def)
  qed
  then show ?thesis unfolding preserves_def typed_streams_def by blast
qed

lemma check_keeps: "preserves (typed_streams entries) (idempotency_Check (new_idempotency_store client ttl) ctx k)"
  unfolding idempotency_Check_def new_idempotency_store_def Let_def
  by (auto intro!: preserves_intros commands_keep split: sum.split)

lemma publish_keeps: "preserves (typed_streams entries) (publisher_Publish (new_publisher client ch) ctx e)"
  unfolding publisher_Publish_def new_publisher_def
  by (auto intro!: preserves_intros commands_keep split: option.split)

end

lemma collected_message: "m \<in> set (collect_messages sts) \<Longrightarrow> \<exists>x\<in>set sts. \<exists>y\<in>set (XMessages x). m = to_stream_message y"
  by (induction sts rule: collect_messages.induct) auto

sublocale stream_client \<subseteq> stored: typed_store "new_store client" "typed_streams entries"
proof
  fix ctx st t g c n b mid i j mids
  let ?T = "typed_streams entries"
  show "preserves ?T (store_Add (new_store client) ctx st t)"
    by (auto simp: store_defs intro!: preserves_intros xadd_keeps split: sum.split)
  show "preserves ?T (store_ReadGroup (new_store client) ctx st g c n b)"
    by (auto simp: store_defs intro!: preserves_intros commands_keep split: sum.split)
  show "preserves ?T (store_Ack (new_store client) ctx st g mid)"
    by (simp add: store_defs commands_keep)
  show "preserves ?T (store_CreateGroup (new_store client) ctx st g)"
    by (auto simp: store_defs intro!: preserves_intros commands_keep)
  show "preserves ?T (store_Range (new_store client) ctx st i j n)"
    by (auto simp: store_defs intro!: preserves_intros commands_keep split: sum.split)
  show "preserves ?T (store_Delete (new_store client) ctx st mids)"
    by (simp add: store_defs commands_keep)
next
  fix w ctx st g c n b ms w'
  assume T: "typed_streams entries w" and "run_state (store_ReadGroup (new_store client) ctx st g c n b) w = (Inr ms, w')"
  then obtain sts where r: "run_state (XReadGroup client ctx \<lparr>XGroup = g, XConsumer = c, XStreams = [st, ''>''],
      XCount = n, XBlock = block_duration b\<rparr>) w = (Inr sts, w')" "ms = collect_messages sts"
    by (auto simp: store_defs split: prod.splits sum.splits)
  show "list_all typed_message ms"
    unfolding list_all_iff
  proof
    fix m assume "m \<in> set ms"
    then obtain x y where "x \<in> set sts" "y \<in> set (XMessages x)" "m = to_stream_message y"
      unfolding r(2) by (blast dest: collected_message)
    then have "XValues y \<in> entries w st" using xreadgroup [OF r(1)] by simp
    then show "typed_message m"
      using T \<open>m = to_stream_message y\<close> by (simp add: typed_message_iff typed_streams_def to_stream_message_def)
  qed
next
  fix w ctx st i j n ms w'
  assume T: "typed_streams entries w" and "run_state (store_Range (new_store client) ctx st i j n) w = (Inr ms, w')"
  then obtain xs where "run_state (XRangeN client ctx st i j n) w = (Inr xs, w')" "ms = map to_stream_message xs"
    by (auto simp: store_defs split: prod.splits sum.splits)
  moreover from this(1) T have "typed_values (XValues x)" if "x \<in> set xs" for x
    using xrange that unfolding typed_streams_def by blast
  ultimately show "list_all typed_message ms"
    by (simp add: list_all_iff typed_message_iff to_stream_message_def)
qed

text \<open>The in-memory server is such a client.\<close>

definition mem_entries :: "redis_state \<Rightarrow> string \<Rightarrow> (string \<rightharpoonup> go_any) set" where
  "mem_entries w st = snd ` set (s_entries (stream_of w st))"

lemma mem_take_count: "e \<in> set (take_count n es) \<Longrightarrow> e \<in> set es"
  by (auto simp: take_count_def dest: in_set_takeD split: if_split_asm)

interpretation mem_streams: stream_client mem_redis mem_entries
proof
  fix ctx st k b w st' a sts w' x m i j n ms g mid start mids v ttl ch d
  show "mem_entries (snd (run_state (XAdd mem_redis ctx st [k \<mapsto> GoBytes b]) w)) st' \<subseteq>
      mem_entries w st' \<union> (if st' = st then {[k \<mapsto> GoString b]} else {})"
    by (auto simp: mem_entries_def mem_redis_defs Let_def stored_value_def fun_eq_iff)
  show "mem_entries (snd (run_state (XReadGroup mem_redis ctx a) w)) st' \<subseteq> mem_entries w st'"
    "mem_entries (snd (run_state (XAck mem_redis ctx st g mid) w)) st' \<subseteq> mem_entries w st'"
    "mem_entries (snd (run_state (XGroupCreateMkStream mem_redis ctx st g start) w)) st' \<subseteq> mem_entries w st'"
    "mem_entries (snd (run_state (XRangeN mem_redis ctx st i j n) w)) st' \<subseteq> mem_entries w st'"
    "mem_entries (snd (run_state (XDel mem_redis ctx st mids) w)) st' \<subseteq> mem_entries w st'"
    "mem_entries (snd (run_state (SetNX mem_redis ctx k v ttl) w)) st' \<subseteq> mem_entries w st'"
    "mem_entries (snd (run_state (RPublish mem_redis ctx ch d) w)) st' \<subseteq> mem_entries w st'"
    "mem_entries (snd (run_state (RPing mem_redis ctx) w)) st' \<subseteq> mem_entries w st'"
    by (simp_all add: mem_entries_def mem_redis_defs Let_def image_mono split: option.split)
  show "XValues m \<in> mem_entries w st"
    if "run_state (XReadGroup mem_redis ctx a) w = (Inr sts, w')" "XStreams a = [st, ''>'']" "x \<in> set sts" "m \<in> set (XMessages x)"
    using that
    by (auto simp: mem_redis_def mem_XReadGroup_def Let_def mem_entries_def to_xmessage_def undelivered_def
        split: option.splits if_splits dest!: mem_take_count) (force+)?
  show "XValues m \<in> mem_entries w st" if "run_state (XRangeN mem_redis ctx st i j n) w = (Inr ms, w')" "m \<in> set ms"
    using that
    by (auto simp: mem_redis_def mem_XRangeN_def mem_entries_def stream_of_def to_xmessage_def
        split: option.splits if_splits dest!: mem_take_count) (force+)?
qed

end
