(* ===== verification/Program_Typed.thy ===== *)
theory Program_Typed
  imports Program_Correct Typed_Store
begin

section \<open>The typing discipline of the whole process\<close>

text \<open>
  Everything in the process that touches the streams keeps them well typed: the mock producer, the
  handlers of the API server behind their middleware, and the consumer with its publisher and its
  idempotency store. So the consumer only ever fetches messages whose payload is a string, the
  encoding of a task, as long as nobody else writes anything else into Redis.
\<close>

text \<open>
  What has to be known of the host: its Redis clients are stream clients (over the same server or
  not: \<open>entries\<close> may be of both), and the clock, the metrics and the random numbers, and what the
  mux answers for paths it does not know, have nothing to do with the streams.
\<close>

locale typed_host = standalone: stream_client "ho_rdb h" entries + cluster: stream_client "ho_clusterRdb h" entries
  for h :: "'w host" and entries :: "'w \<Rightarrow> string \<Rightarrow> (string \<rightharpoonup> go_any) set" +
  assumes runtime_typed: "preserves (typed_streams entries) (rt_inc (ho_runtime h) mt)"
      "preserves (typed_streams entries) (rt_observe (ho_runtime h) mt d)" "preserves (typed_streams entries) (rt_now (ho_runtime h))"
    and draw_typed: "preserves (typed_streams entries) (ho_draw h)"
    and clock_typed: "preserves (typed_streams entries) (ho_utc_now h)"
    and other_typed: "preserves (\<lambda>x. typed_streams entries (hx_world x)) (ho_other h rq)"
begin

abbreviation T :: "'w \<Rightarrow> bool" where "T \<equiv> typed_streams entries"
abbreviation TH :: "'w http \<Rightarrow> bool" where "TH \<equiv> \<lambda>x. typed_streams entries (hx_world x)"

lemma main_store_typed: "typed_store (main_store cfg (ho_rdb h) (ho_clusterRdb h)) T"
  unfolding main_store_def cluster_store_eq
  using standalone.stored.typed_store_axioms cluster.stored.typed_store_axioms by simp

lemma main_publisher_typed: "preserves T (main_publisher (ho_rdb h) ctx e)"
  unfolding main_publisher_def by (rule standalone.publish_keeps)

lemma main_ping_typed: "preserves T (main_ping cfg (ho_rdb h) (ho_clusterRdb h))"
  unfolding main_ping_def by (auto intro!: preserves_intros standalone.commands_keep cluster.commands_keep)

lemma main_server_typed: "preserves T (main_server (ho_runtime h) cfg (ho_rdb h) (ho_clusterRdb h))"
  unfolding main_server_def new_server_def by (intro preserves_intros runtime_typed)

lemma main_consumer_typed: "typed_consumer (program_consumer h cfg) T (ho_runtime h)"
proof (intro typed_consumer.intro typed_consumer_axioms.intro)
  let ?c = "program_consumer h cfg"
  have parts: "c_store ?c = main_store cfg (ho_rdb h) (ho_clusterRdb h)" "c_publisher ?c = main_publisher (ho_rdb h)"
    "c_processor ?c = main_processor (ho_draw h)"
    "c_idempotency ?c = Some check \<Longrightarrow> check = idempotency_Check (new_idempotency_store (ho_rdb h) (word_of_int (24 * hour)))" for check
    by (auto simp: program_consumer_def main_consumer_def new_consumer_def with_idempotency_def Let_def split: if_splits)
  show "typed_store (c_store ?c) T" unfolding parts by (rule main_store_typed)
  show "preserves T (c_publisher ?c ctx e)" for ctx e unfolding parts by (rule main_publisher_typed)
  show "preserves T (c_processor ?c ctx t)" for ctx t
    unfolding parts main_processor_def TaskProcessorFunc_Process_def by (intro preserves_intros draw_typed)
  show "preserves T (check ctx key)" if "c_idempotency ?c = Some check" for check ctx key
    unfolding parts(4) [OF that] by (rule standalone.check_keeps)
qed (rule runtime_typed)+

lemma produce_typed: "preserves T (Produce (main_producer cfg (ho_rdb h) (ho_clusterRdb h)) ctx t)"
  unfolding Produce_def main_producer_def new_producer_def
  by (auto intro!: preserves_intros typed_store.add_keeps [OF main_store_typed] main_publisher_typed split: sum.split)

lemma mock_tick_typed: "preserves T (mock_ticks (ho_utc_now h) cfg (main_producer cfg (ho_rdb h) (ho_clusterRdb h)) 1 n)"
  by (auto simp: numeral_eq_Suc intro!: preserves_intros clock_typed produce_typed)

subsection \<open>Requests\<close>

lemma respond_typed: "preserves TH (respond f)"
  by (simp add: preserves_def)

lemma outside_typed: "preserves T m \<Longrightarrow> preserves TH (outside m)"
  by (simp add: preserves_def)

lemma limiter_typed: "preserves TH (limiter_allow (ho_runtime h) ip)"
proof -
  have "preserves T (allow (ho_runtime h) rl ip)" for rl
    unfolding allow_def by (auto intro!: preserves_intros runtime_typed split: option.split)
  then show ?thesis unfolding limiter_allow_def by (auto simp: preserves_def split: prod.split) (metis snd_conv)
qed

text \<open>The server \<open>main\<close> makes.\<close>

definition made_server :: "config \<Rightarrow> 'w server \<Rightarrow> bool" where
  "made_server cfg sv \<longleftrightarrow> sv_store sv = main_store cfg (ho_rdb h) (ho_clusterRdb h) \<and> sv_publisher sv = main_publisher (ho_rdb h) \<and>
     sv_client sv = ho_rdb h"

lemma main_server_made: "run_state (main_server (ho_runtime h) cfg (ho_rdb h) (ho_clusterRdb h)) w = (sv, w') \<Longrightarrow> made_server cfg sv"
  by (auto simp: main_server_def new_server_def made_server_def split: prod.splits)

lemma made_server_store: "made_server cfg sv \<Longrightarrow> typed_store (sv_store sv) T"
  using main_store_typed by (simp add: made_server_def)

lemma made_server_publisher: "made_server cfg sv \<Longrightarrow> preserves T (sv_publisher sv ctx e)"
  using main_publisher_typed by (simp add: made_server_def)

lemma retry_message_typed:
  assumes "made_server cfg sv"
  shows "preserves T (retry_message sv ctx m)"
  unfolding retry_message_def Let_def
  by (auto intro!: preserves_intros typed_store.add_keeps [OF made_server_store] typed_store.delete_keeps [OF made_server_store]
      made_server_publisher assms split: option.split sum.split)

lemma retry_messages_typed:
  assumes "made_server cfg sv"
  shows "preserves T (retry_messages sv ctx ms n)"
  by (induction ms arbitrary: n) (auto intro!: preserves_intros retry_message_typed [OF assms])

lemma retry_handler_typed:
  assumes "made_server cfg sv"
  shows "preserves TH (handleRetryDLQ sv rq)"
  unfolding handleRetryDLQ_def retry_dlq_def Let_def
  by (auto intro!: preserves_intros respond_typed outside_typed retry_messages_typed [OF assms]
      typed_store.range_keeps [OF made_server_store [OF assms]] split: sum.split)

lemma health_typed:
  assumes "made_server cfg sv"
  shows "preserves TH (handleHealth (ho_runtime h) sv rq)"
proof -
  have "sv_client sv = ho_rdb h" using assms by (simp add: made_server_def)
  then show ?thesis
    unfolding handleHealth_def Let_def
    by (auto intro!: preserves_intros respond_typed outside_typed standalone.commands_keep runtime_typed)
qed

lemma mux_typed:
  assumes "made_server cfg sv"
  shows "preserves TH (server_mux (ho_runtime h) feed flushes (ho_other h) sv rq)"
  unfolding server_mux_def handleStream_def handleWorkers_def
  by (auto intro!: preserves_intros respond_typed health_typed [OF assms] retry_handler_typed [OF assms] other_typed)

lemma request_typed:
  assumes "made_server cfg sv"
  shows "preserves TH (server_handler (ho_runtime h) feed flushes (ho_other h) sv rq)"
  unfolding server_handler_def with_middleware_def panicRecoveryMiddleware_def corsMiddleware_def rateLimitMiddleware_def
  by (auto intro!: preserves_intros respond_typed limiter_typed mux_typed [OF assms] split: served.split)

end

subsection \<open>The process\<close>

text \<open>The environment may change the world, but writes nothing ill typed.\<close>

definition typed_start :: "('w \<Rightarrow> string \<Rightarrow> (string \<rightharpoonup> go_any) set) \<Rightarrow> 'w program \<Rightarrow> bool" where
  "typed_start entries s \<longleftrightarrow> program_init s \<and> typed_streams entries (pg_world s)"

definition typed_step :: "'w host \<Rightarrow> config \<Rightarrow> ('w \<Rightarrow> string \<Rightarrow> (string \<rightharpoonup> go_any) set) \<Rightarrow> 'w program \<Rightarrow> 'w program \<Rightarrow> bool" where
  "typed_step h cfg entries s t \<longleftrightarrow> program_step h cfg s t \<and> (outside_moves s t \<longrightarrow> typed_streams entries (pg_world t))"

context typed_host
begin

definition all_typed :: "config \<Rightarrow> 'w program \<Rightarrow> bool" where
  "all_typed cfg s \<longleftrightarrow> T (pg_world s) \<and>
     (case pg_pool s of None \<Rightarrow> True | Some p \<Rightarrow> list_all typed_message (po_fetched p)) \<and>
     (case pg_server s of None \<Rightarrow> True | Some sv \<Rightarrow> made_server cfg sv)"

lemma group_created:
  "T w \<Longrightarrow> Start (program_consumer h cfg) w = Started p \<Longrightarrow> T (po_world p) \<and> po_fetched p = []"
  "T w \<Longrightarrow> T (after_create_group h cfg w)"
proof -
  let ?c = "program_consumer h cfg"
  have keeps: "preserves T (store_CreateGroup (c_store ?c) ctx st g)" for ctx st g
    using typed_consumer.axioms(1) [OF main_consumer_typed] by (rule typed_store.create_keeps)
  show "T w \<Longrightarrow> Start ?c w = Started p \<Longrightarrow> T (po_world p) \<and> po_fetched p = []"
    using preservesD [OF keeps] by (auto simp: Start_started started_pool_def)
  show "T w \<Longrightarrow> T (after_create_group h cfg w)"
    using keeps by (simp add: after_create_group_def Let_def preserves_def)
qed

lemma main_moves_typed:
  assumes "main_moves h cfg s t" and "all_typed cfg s"
  shows "all_typed cfg t"
  using assms(1)
proof cases
  case (main_connects u w1 sv w2)
  then have "T w2"
    using preservesD [OF main_ping_typed] preservesD [OF main_server_typed] assms(2) by (simp add: all_typed_def)
  then show ?thesis using main_connects assms(2) main_server_made by (simp add: all_typed_def)
next
  case (consumer_moves p p')
  have "T (po_world p') \<and> list_all typed_message (po_fetched p')"
    by (rule typed_consumer.pool_typed [OF main_consumer_typed consumer_moves(4)])
      (use consumer_moves assms(2) in \<open>simp_all add: all_typed_def pool_view_def\<close>)
  then show ?thesis using consumer_moves assms(2) by (simp add: all_typed_def)
qed (use assms(2) group_created [of "pg_world s" cfg] in \<open>simp_all add: all_typed_def\<close>)

lemma step_typed:
  assumes "typed_step h cfg entries s t" and "all_typed cfg s"
  shows "all_typed cfg t"
  using assms(1) [unfolded typed_step_def, THEN conjunct1, unfolded program_step_def]
proof (elim disjE)
  assume "main_moves h cfg s t"
  then show ?thesis using assms(2) by (rule main_moves_typed)
next
  assume "signal_moves s t"
  then show ?thesis using assms(2) by cases (simp_all add: all_typed_def)
next
  assume "mock_moves h cfg s t"
  then show ?thesis
    using assms(2) by cases (simp_all add: all_typed_def preservesD [OF mock_tick_typed])
next
  assume "server_moves h s t"
  then show ?thesis
    using assms(2)
    by cases (auto simp: all_typed_def dest: preservesD [OF request_typed])
next
  assume "metrics_moves s t"
  then show ?thesis using assms(2) by cases (simp_all add: all_typed_def)
next
  assume out: "outside_moves s t"
  then have "T (pg_world t)" using assms(1) by (simp add: typed_step_def)
  then show ?thesis using out assms(2) by (auto simp: all_typed_def elim!: outside_movesE)
qed

lemma start_typed: "typed_start entries s \<Longrightarrow> all_typed cfg s"
  by (auto simp: typed_start_def program_init_def program_started_def all_typed_def)

end

sublocale typed_host \<subseteq> typed: safety "typed_start entries" "typed_step h cfg entries" "all_typed cfg" for cfg
  by unfold_locales (auto intro: start_typed step_typed)

context typed_host
begin

lemma fetched_typed:
  assumes "reachable (typed_start entries) (typed_step h cfg entries) s" and "pg_pool s = Some p" and "m \<in> set (po_fetched p)"
  shows "\<exists>t data. marshal t = Inr data \<and> payload_string m = Some data"
proof -
  have "all_typed cfg s" using typed.reachable_inv assms(1) .
  then show ?thesis using assms(2,3) by (auto simp: all_typed_def list_all_iff typed_message_def)
qed

end

interpretation demo_typed: typed_host demo_host mem_entries
proof (intro typed_host.intro typed_host_axioms.intro)
  show "stream_client (ho_rdb demo_host) mem_entries" "stream_client (ho_clusterRdb demo_host) mem_entries"
    using mem_streams.stream_client_axioms by (simp_all add: demo_host_def)
qed (simp_all add: demo_host_def preserves_intros)

subsection \<open>Property\<close>

text \<open>A run of the process that fetches one task.\<close>

definition demo_world :: redis_state where
  "demo_world = snd (run_state (Store_Add mem_redis Background (StreamName demo_config) sample_task) empty_redis)"

lemma demo_world_typed: "typed_streams mem_entries demo_world"
proof -
  have "typed_streams mem_entries empty_redis"
    by (simp add: typed_streams_def mem_entries_def empty_redis_def stream_of_def empty_stream_def)
  moreover have "preserves (typed_streams mem_entries) (store_Add (new_store mem_redis) Background (StreamName demo_config) sample_task)"
    by (rule mem_streams.stored.add_keeps)
  ultimately show ?thesis by (simp add: demo_world_def preserves_def new_store_def)
qed

lemma demo_program_consumer:
  "c_store (program_consumer demo_host demo_config) = new_store mem_redis"
  "c_stream (program_consumer demo_host demo_config) = StreamName demo_config"
  "c_fetchBatchSize (program_consumer demo_host demo_config) = FetchBatchSize demo_config"
  "c_workerCount (program_consumer demo_host demo_config) = WorkerCount demo_config"
  "chan_allowed (chan_cap (program_consumer demo_host demo_config))"
  "FetchBatchSize demo_config = 10"
proof -
  have none: "parse_bool [] = None" "atoi [] = None"
    by (simp_all add: parse_bool_def atoi_def Let_def)
  then have cfg: "\<not> RedisCluster demo_config" "WorkerCount demo_config = 5" "FetchBatchSize demo_config = 10"
    by (simp_all add: demo_config_def Load_def envBoolOrDefault_def envIntOrDefault_def)
  then show "FetchBatchSize demo_config = 10" by simp
  show "c_store (program_consumer demo_host demo_config) = new_store mem_redis"
    "c_stream (program_consumer demo_host demo_config) = StreamName demo_config"
    "c_fetchBatchSize (program_consumer demo_host demo_config) = FetchBatchSize demo_config"
    and wc: "c_workerCount (program_consumer demo_host demo_config) = WorkerCount demo_config"
    using cfg by (simp_all add: program_consumer_def main_consumer_def new_consumer_def with_idempotency_def main_store_def demo_host_def)
  show "chan_allowed (chan_cap (program_consumer demo_host demo_config))"
    by (simp add: chan_cap_def wc cfg chan_allowed_def)
qed

lemma demo_fetches:
  obtains w1 ms w2 where
    "run_state (store_CreateGroup (c_store (program_consumer demo_host demo_config)) MainCtx
       (c_stream (program_consumer demo_host demo_config)) (c_group (program_consumer demo_host demo_config))) demo_world = (None, w1)"
    and "fetch (program_consumer demo_host demo_config) w1 = (Inr ms, w2)" and "ms \<noteq> []"
proof -
  obtain data where data: "marshal sample_task = Inr data" using unmarshal_marshal [OF json_sample_task(1)] by blast
  show thesis
    by (rule that)
      (auto simp: demo_program_consumer demo_world_def data store_defs fetch_def mem_redis_defs empty_redis_def empty_stream_def
        undelivered_def take_count_def Let_def)
qed

lemma demo_reads:
  obtains s p where "reachable (typed_start mem_entries) (typed_step demo_host demo_config mem_entries) s"
    and "pg_pool s = Some p" and "po_fetched p \<noteq> []"
proof -
  let ?c = "program_consumer demo_host demo_config"
  let ?R = "reachable (typed_start mem_entries) (typed_step demo_host demo_config mem_entries)"
  obtain w1 ms w2 where w1: "run_state (store_CreateGroup (c_store ?c) MainCtx (c_stream ?c) (c_group ?c)) demo_world = (None, w1)"
    and w2: "fetch ?c w1 = (Inr ms, w2)" and ms: "ms \<noteq> []" by (rule demo_fetches)
  let ?p = "started_pool FLoop (c_workerCount ?c) w1"
  have step: "?R t" if "?R s" "main_moves demo_host demo_config s t" for s t
  proof (rule successor [OF that(1)])
    have "demo_typed.all_typed demo_config s" by (rule demo_typed.typed.reachable_inv [OF that(1)])
    then have "demo_typed.all_typed demo_config t" by (rule demo_typed.main_moves_typed [OF that(2)])
    then show "typed_step demo_host demo_config mem_entries s t"
      using that(2) by (simp add: typed_step_def program_stepI demo_typed.all_typed_def)
  qed
  obtain sv where sv: "run_state (main_server (ho_runtime demo_host) demo_config (ho_rdb demo_host) (ho_clusterRdb demo_host)) demo_world =
      (sv, demo_world)"
    by (simp add: main_server_def new_server_def demo_host_def)
  have ping: "run_state (main_ping demo_config (ho_rdb demo_host) (ho_clusterRdb demo_host)) demo_world = ((), demo_world)"
    by (simp add: main_ping_def demo_host_def mem_redis_def)
  have start: "Start ?c demo_world = Started ?p"
    using w1 by (simp add: Start_started demo_program_consumer(5))
  define mk where "mk = (if EnableMockTasks demo_config then MockNew else MockOff)"
  let ?s0 = "program_started demo_world"
  let ?s1 = "?s0\<lparr>pg_main := MainStarting, pg_server := Some sv, pg_api := Some (api_started (pg_cancelled ?s0)),
    pg_mock := mk, pg_world := demo_world\<rparr>"
  let ?s2 = "?s1\<lparr>pg_main := MainWaiting, pg_pool := Some ?p, pg_world := w1\<rparr>"
  let ?s3 = "?s2\<lparr>pg_pool := Some (?p\<lparr>po_fetcher := FReading\<rparr>), pg_world := w1\<rparr>"
  let ?s4 = "?s3\<lparr>pg_pool := Some (?p\<lparr>po_fetcher := FDispatch ms, po_world := w2, po_fetched := ms\<rparr>), pg_world := w2\<rparr>"
  have "?R ?s0" by (rule initial) (auto simp: typed_start_def program_init_def program_started_def demo_world_typed)
  then have "?R ?s1" by (rule step) (unfold mk_def, rule main_connects [OF _ _ sv], simp_all add: program_started_def ping)
  then have "?R ?s2" by (rule step) (use main_starts [of ?s1 demo_host demo_config ?p] start in \<open>simp add: started_pool_def\<close>)
  then have "?R ?s3"
  proof (rule step)
    have "fetch_step ?c ?p (?p\<lparr>po_fetcher := FReading\<rparr>)" by (rule fetch_reads) (simp_all add: started_pool_def)
    then have "own_step (fetch_step ?c) (worker_body (ho_runtime demo_host) ?c) (pool_view ?s2 ?p) (?p\<lparr>po_fetcher := FReading\<rparr>)"
      by (simp add: own_step_def pool_view_def started_pool_def program_started_def)
    from consumer_moves [OF _ _ this] show "main_moves demo_host demo_config ?s2 ?s3" by (simp add: started_pool_def)
  qed
  then have "?R ?s4"
  proof (rule step)
    have "fetch_step ?c (?p\<lparr>po_fetcher := FReading\<rparr>) (?p\<lparr>po_fetcher := FDispatch ms, po_world := w2, po_fetched := ms\<rparr>)"
      using fetch_got [of "?p\<lparr>po_fetcher := FReading\<rparr>" ?c ms w2] w2 by (simp add: started_pool_def)
    then have "own_step (fetch_step ?c) (worker_body (ho_runtime demo_host) ?c) (pool_view ?s3 (?p\<lparr>po_fetcher := FReading\<rparr>))
        (?p\<lparr>po_fetcher := FDispatch ms, po_world := w2, po_fetched := ms\<rparr>)"
      by (simp add: own_step_def pool_view_def started_pool_def program_started_def)
    from consumer_moves [OF _ _ this] show "main_moves demo_host demo_config ?s3 ?s4" by simp
  qed
  then show thesis by (rule that) (simp, simp add: ms)
qed

text \<open>
  C13: The consumer only sees well-typed messages. Suppose Redis starts with well-typed streams, and
  nobody else writes anything ill typed into them (and the Redis clients behave as documented: a
  command adds no entry but the one XADD is for, bytes come back as strings). Then in every
  reachable state of the whole process, with producer, API server and consumer at work, every
  message the consumer ever fetched has as its payload a string that is the encoding of a task: the
  type assertion in processMessage never fails.
\<close>

theorem program_messages_typed:
  assumes "typed_host h entries" and "reachable (typed_start entries) (typed_step h cfg entries) s"
    and "pg_pool s = Some p"
  shows "list_all (\<lambda>m. \<exists>t data. marshal t = Inr data \<and> payload_string m = Some data) (po_fetched p)"
  using typed_host.fetched_typed [OF assms] by (simp add: list_all_iff)

theorem program_messages_typed_witness:
  "\<exists>s p. reachable (typed_start mem_entries) (typed_step demo_host demo_config mem_entries) s \<and> pg_pool s = Some p \<and>
     po_fetched p \<noteq> [] \<and> list_all (\<lambda>m. \<exists>t data. marshal t = Inr data \<and> payload_string m = Some data) (po_fetched p)"
proof (rule demo_reads)
  fix s p
  assume s: "reachable (typed_start mem_entries) (typed_step demo_host demo_config mem_entries) s" "pg_pool s = Some p"
    "po_fetched p \<noteq> []"
  from program_messages_typed [OF demo_typed.typed_host_axioms s(1,2)] s show ?thesis by blast
qed

end
