(* ===== verification/Spec2Isabelle.thy ===== *)
theory Spec2Isabelle
  imports Idempotency Redis_Correct Interleaved_Pool Priority_Correct End_To_End Program_Typed
begin

text \<open>
  Buraq (Forge), a task queue on Redis streams written in Go: a model of the program and the
  properties that make it a queue.

  The program. Producers encode a task as JSON and add it to a Redis stream, then announce it on a
  Pub/Sub channel. A consumer is a fetcher goroutine that reads batches of the stream through a
  consumer group into a buffered channel, and a pool of workers that take messages from the channel
  and run the handler on each: decode, skip if the idempotency key was seen, announce, process under
  the task's timeout, then acknowledge, or write the task back to the stream or to the dead-letter
  stream and acknowledge if that worked. An HTTP server streams the events, reports health, and
  moves dead letters back. \<open>main\<close> starts all of them, waits for the consumer, and cancels their common
  context at the first signal. Components meet in the interfaces of \<open>task/store.go\<close>; everything outside
  the process (Redis, the clock, the metrics registry, random numbers) is a parameter that acts on
  an outside state of any type.

  Conventions (\<open>Prelude\<close>). A Go function of type \<open>(T, error)\<close> is a state transformer returning
  \<open>error + T\<close>; \<open>int\<close>, \<open>int64\<close> and \<open>time.Duration\<close> are 64-bit words read with \<open>sint\<close>; strings are
  lists of bytes; a panic is a value (\<open>Panicked\<close>, \<open>Crashed\<close>, \<open>HandlerPanicked\<close>, \<open>StartPanicked\<close>).
  Logging is left out throughout.

  Data. \<open>Go_Json\<close> and \<open>Go_Time\<close> have what \<open>encoding/json\<close> and \<open>time\<close> do with the types of
  \<open>task/task.go\<close>, at the level of bytes; \<open>Task\<close> has \<open>Task\<close>, \<open>Event\<close>, \<open>Marshal\<close>, \<open>Unmarshal\<close>.
  \<open>Json_Roundtrip\<close> (locale \<open>codec\<close>: an encoding that can be read back) and \<open>Task_Codec\<close> (its
  interpretations for strings, integers, times and tasks) show that tasks survive the trip.

  Interfaces. \<open>Interfaces\<close> has the interfaces of \<open>task/store.go\<close> and the metrics of
  \<open>metrics/metrics.go\<close>, and spies: collaborators that also record each call with its result. The
  rules in \<open>yields_intros\<close> derive the calls an operation can make for all answers of the
  collaborators; those in \<open>mirrors_intros\<close> show that spying changes nothing. \<open>Test_Doubles\<close> has the
  mocks of the repository's unit tests, on which witnesses are evaluated.

  The message handler. \<open>Consumer\<close> models \<open>processMessage\<close>, \<open>handleTaskFailure\<close>, \<open>acknowledge\<close>
  and \<open>publishEvent\<close> of \<open>consumer/consumer.go\<close>, states the traces of calls it may make
  (\<open>message_trace\<close>) and that it makes no others; \<open>Consumer_Correct\<close> reads the properties off the
  traces: when a message is acknowledged, what is written back and where, the retry counter, the
  events and metrics of each fate.

  The goroutines. \<open>Transitions\<close> has reachability and the locales \<open>safety\<close> (an invariant) and
  \<open>shutdown\<close> (a phase in which the program's own steps come to an end whatever the environment does,
  and every fair run to a final state). \<open>Worker_Pool\<close> has the state two consumers
  share (fetcher, channel, workers, context, and the history of messages), the workers' steps, the
  contract of a fetcher (locale \<open>worker_pool\<close>, a sublocale of \<open>shutdown\<close>), the invariant that
  accounts for every message and the rank that decreases at a shutdown. \<open>Consumer_Pool\<close> models
  \<open>Start\<close>, \<open>fetchTasks\<close> and \<open>worker\<close>, and \<open>Priority_Pool\<close> the same of
  \<open>consumer/priority_consumer.go\<close>; both fetchers are interpretations of the contract. A step is what
  a goroutine does between two points where another may be scheduled; a handler runs here as one step,
  and between steps the outside state may change in any way. \<open>Pool_Correct\<close> has the properties of
  the consumer's pool. \<open>Pool_Log\<close> runs the pool with spied collaborators and explains the log of all
  calls of the consumer: reads, and whole runs of the handler on the messages that left the workers;
  from it follows what becomes of every message a read returned. \<open>Handler_Steps\<close> gives the handler
  again as a program of calls (a datatype: a call, and what follows for each answer), equal to the
  operation of \<open>Consumer\<close> when run without a pause, and with the specified calls whatever is answered;
  \<open>Interleaved_Pool\<close> is the pool in which a worker makes one call per step, so that other workers,
  the fetcher and Redis's other clients act between two calls of a handler. It includes the runs
  of \<open>Consumer_Pool\<close>, accounts for every message and every handler run, and interprets \<open>shutdown\<close>.

  Priorities. \<open>Producer\<close> models \<open>producer/producer.go\<close> and \<open>producer/priority.go\<close> and has the
  routing contract \<open>stream_router\<close>; \<open>Priority_Consumer\<close> models the priority consumer's handler, its
  traces and its interpretation of the routing contract; \<open>Priority_Correct\<close> has its properties.

  Redis. \<open>Redis_Adapter\<close> models the stores, the idempotency store and the publisher over a record
  of the Redis commands they send. \<open>Redis_Correct\<close> (locales \<open>new_only_client\<close>, \<open>fresh_reads\<close>) and
  \<open>Idempotency\<close> (locales \<open>once_checker\<close>, \<open>set_nx_client\<close>, \<open>keyed_consumer\<close>) state the documented
  behaviour of Redis they rely on and what follows for the program; \<open>Redis_Memory\<close> is an in-memory
  Redis that shows the laws can hold together.

  The API server. \<open>Potential\<close> has runs of operations and the potential method as a locale;
  \<open>Rate_Limiter\<close> models the token buckets of \<open>api/middleware.go\<close> and bounds what they admit by an
  interpretation of it. \<open>Http\<close> has requests, responses and handlers, and the contract of a
  middleware that passes a request on or answers it (locale \<open>guard\<close>; \<open>guard_chain\<close> composes two).
  \<open>Middleware\<close> models CORS, API key, panic recovery and rate limit, the first, second and fourth as
  guards. \<open>Server\<close> models the handlers of \<open>api/server.go\<close>; \<open>Server_Correct\<close> has the properties of
  the chain and of the retry of dead letters; \<open>Server_Run\<close> models the goroutines of \<open>Start\<close> and
  interprets \<open>shutdown\<close> on them.

  Configuration and wiring. \<open>Go_Parse\<close> has \<open>strconv.Atoi\<close>, \<open>strconv.ParseBool\<close>,
  \<open>time.ParseDuration\<close> (its fraction in rounded 53-bit arithmetic) and \<open>strings.TrimSpace\<close>;
  \<open>Config\<close> models \<open>config/config.go\<close>; \<open>Main_Program\<close> models how \<open>main.go\<close> puts the components
  together, its simulated processor and its mock producer. \<open>End_To_End\<close> has what needs several
  components: retrying ends, and events reach the clients of the event stream as they were
  published (locale \<open>pubsub_client\<close>, Redis's Pub/Sub).

  The process. \<open>Program\<close> models \<open>main.go\<close> as it runs: \<open>main\<close>, the signal goroutine, the metrics
  listener, the API server with its requests and the sweeper of its rate limiter, the mock producer
  and the consumer's pool, interleaved over one outside state and one context, up to the exit or the
  crash of the process; and shows that pool and server run in it as in their own models.
  \<open>Program_Correct\<close> interprets \<open>shutdown\<close> on it twice, from the signal to the cancelled context and
  from there to the exit, and \<open>safety\<close> once, for the wiring of server and consumer; it has what an
  exit means and that a retry of dead letters serves this process's consumer. \<open>Typed_Store\<close> and \<open>Program_Typed\<close> have the
  typing discipline of the streams as contracts (locales \<open>stream_client\<close>, \<open>typed_store\<close>,
  \<open>typed_consumer\<close>, \<open>typed_host\<close>): everything the process does keeps the payloads in Redis strings
  that encode tasks.

  Bounds. Recursions are over lists (bytes, messages, ticks, operations), so there is no fuel. The
  JSON nesting limit is the library's 10000. The rate limiter's bound is for a rate of at most
  1000000 per second and a burst that five idle minutes refill (the server's are 100 and 200), which
  keeps the token arithmetic within 64 bits; its seconds are computed as integers, which agrees with
  the \<open>float64\<close> of the code below 2 to the 24 seconds.

  Not modelled. The dashboard (TypeScript), the tests and benchmarks. Of \<open>net/http\<close>:
  what happens inside \<open>ListenAndServe\<close> and \<open>Shutdown\<close>, and the answers of \<open>http.ServeMux\<close> for
  unregistered paths (a parameter). Of the metrics listener: all but that it runs and may fail. Redis
  itself: its commands are parameters. Of encoding/json: payloads are kept as bytes and compacted, HTML escaping is
  modelled, numbers in payloads are not interpreted. Time: sleeps, ticks and timeouts may end at any
  moment, so the sweeper of the rate limiter sweeps and the mock producer produces at any time. A
  handler that never returns is not a run: the properties of the pool and the process are for
  handlers, requests and store calls that return.
\<close>

end
